theory Spec2Isabelle
  imports Complex_Main "HOL-Library.Monad_Syntax"
begin

section \<open>House-cusp engine of \<open>calculate_houses\<close> (formula path)\<close>

text \<open>
  The embedding follows \<open>src/calculate_houses.py\<close>. Python floats are read as real
  numbers: \<open>+\<close>, \<open>-\<close>, \<open>*\<close>, \<open>/\<close> are exact, and the functions of the
  \<open>math\<close> module are the real functions of the same name. Infinities and NaN are
  outside this model. So is rounding: on floats, \<open>x % 360\<close> is \<open>360.0\<close> for a tiny
  negative \<open>x\<close>, so that a normalised angle lies in \<open>[0, 360]\<close>, and two expressions
  that are equal over the reals may differ in the last bit. Where a property depends on
  that (the Koch cusps), the rounding is written out, in \<open>koch_house_cusps_float\<close>.
\<close>

subsection \<open>Angle arithmetic\<close>

text \<open>Python's \<open>x % m\<close> on floats: the result has the sign of the divisor \<open>m\<close>.
  The program only ever divides by \<open>360\<close>.\<close>

definition fmod_py :: "real \<Rightarrow> real \<Rightarrow> real" where
  "fmod_py x m = x - m * of_int \<lfloor>x / m\<rfloor>"

definition normalize_deg :: "real \<Rightarrow> real" where
  "normalize_deg x = (let v = fmod_py x 360 in if v < 0 then v + 360 else v)"

definition circ_diff :: "real \<Rightarrow> real \<Rightarrow> real" where
  "circ_diff a b = fmod_py (a - b + 180) 360 - 180"

subsection \<open>The functions of the \<open>math\<close> module\<close>

definition radians :: "real \<Rightarrow> real" where
  "radians d = d * pi / 180"

definition degrees :: "real \<Rightarrow> real" where
  "degrees r = r * 180 / pi"

text \<open>
  \<open>math.asin\<close> and \<open>math.acos\<close> raise outside \<open>[-1, 1]\<close>; the program calls
  \<open>asin\<close> on a product of two sines and \<open>acos\<close> behind a range test, so neither can
  raise.

  \<open>math.tan\<close> never raises on a finite float and has no pole: at
  \<open>math.radians(90.0)\<close>, which is the double nearest to \<open>pi / 2\<close>, it returns
  \<open>1.633123935319537e16\<close>, and the opposite at \<open>-90.0\<close>. HOL's \<open>tan\<close> is 0 where the
  cosine is 0, so \<open>tan_py\<close> takes the float value there, with the sign of the sine.
\<close>

definition tan_py :: "real \<Rightarrow> real" where
  "tan_py x =
     (if cos x = 0 then (if 0 < sin x then 16331239353195370 else - 16331239353195370)
      else tan x)"

text \<open>\<open>math.atan2(y, x)\<close>: the angle of the point \<open>(x, y)\<close>, in \<open>(-pi, pi]\<close>.\<close>

definition atan2 :: "real \<Rightarrow> real \<Rightarrow> real" where
  "atan2 y x =
     (if 0 < x then arctan (y / x)
      else if x < 0 then (if 0 \<le> y then arctan (y / x) + pi else arctan (y / x) - pi)
      else if 0 < y then pi / 2
      else if y < 0 then - (pi / 2)
      else 0)"

subsection \<open>Equatorial coordinates and the semi-diurnal arc\<close>

definition ra_dec_from_lambda :: "real \<Rightarrow> real \<Rightarrow> real \<times> real" where
  "ra_dec_from_lambda lambda_deg eps_deg =
     (let lam = radians lambda_deg;
          eps = radians eps_deg;
          sinlam = sin lam;
          coslam = cos lam;
          sd = sin eps * sinlam;
          delta = degrees (arcsin sd);
          y = sinlam * cos eps;
          x = coslam;
          alpha = degrees (atan2 y x)
      in (normalize_deg alpha, delta))"

text \<open>\<open>None\<close> is the circumpolar case: the point never crosses the horizon.\<close>

definition rising_hour_angle :: "real \<Rightarrow> real \<Rightarrow> real option" where
  "rising_hour_angle delta_deg phi_deg =
     (let phi = radians phi_deg;
          delta = radians delta_deg;
          val = - tan_py phi * tan_py delta
      in if val < - 1 \<or> 1 < val then None else Some (degrees (arccos val)))"

text \<open>The closure \<open>F\<close> of \<open>solve_lambda_by_OA\<close>, with the variables it captures
  (\<open>obliquity_degrees\<close>, \<open>latitude\<close>, \<open>base\<close>, \<open>n_frac\<close>, \<open>sign_factor\<close>,
  \<open>use_descension\<close>) as arguments.\<close>

definition F :: "real \<Rightarrow> real \<Rightarrow> real \<Rightarrow> real \<Rightarrow> real \<Rightarrow> bool \<Rightarrow> real \<Rightarrow> real option" where
  "F obliquity_degrees latitude base n_frac sign_factor use_descension lam_deg =
     (let (alpha, delta) = ra_dec_from_lambda lam_deg obliquity_degrees
      in case rising_hour_angle delta latitude of
           None \<Rightarrow> None
         | Some h0 \<Rightarrow>
             (let x_val = (if use_descension then normalize_deg (alpha + h0)
                           else normalize_deg (alpha - h0));
                  lhs = circ_diff base x_val;
                  rhs = sign_factor * n_frac * h0
              in Some (lhs - rhs)))"

text \<open>The closure \<open>F_val\<close> of \<open>solve_with_fallback\<close>: the same equation, the sign
  being an argument.\<close>

definition F_val :: "real \<Rightarrow> real \<Rightarrow> real \<Rightarrow> real \<Rightarrow> bool \<Rightarrow> real \<Rightarrow> real \<Rightarrow> real option" where
  "F_val obliquity_degrees latitude base n_frac use_descension lam_deg sign_factor =
     (let (alpha, delta) = ra_dec_from_lambda lam_deg obliquity_degrees
      in case rising_hour_angle delta latitude of
           None \<Rightarrow> None
         | Some h0 \<Rightarrow>
             (let x_val = (if use_descension then normalize_deg (alpha + h0)
                           else normalize_deg (alpha - h0));
                  lhs = circ_diff base x_val;
                  rhs = sign_factor * n_frac * h0
              in Some (lhs - rhs)))"

subsection \<open>The window scan with bisection\<close>

text \<open>The generator \<open>iter_window\<close>. Its \<open>while True\<close> loop has no bound of its own,
  so it is a partial function: \<open>None\<close> means that the generator never stops. The list
  is the sequence of the angles it yields.\<close>

partial_function (option) iter_window_loop :: "real \<Rightarrow> real \<Rightarrow> real \<Rightarrow> real list option" where
  "iter_window_loop angle end_n step =
     (let angle' = normalize_deg (angle + step)
      in if \<bar>circ_diff angle' end_n\<bar> \<le> step * 0.5 then Some [angle']
         else do { rest \<leftarrow> iter_window_loop angle' end_n step; Some (angle' # rest) })"

definition iter_window :: "real \<Rightarrow> real \<Rightarrow> real \<Rightarrow> real list option" where
  "iter_window start end step =
     (let angle = normalize_deg (start + step);
          end_n = normalize_deg end
      in do { rest \<leftarrow> iter_window_loop angle end_n step; Some (angle # rest) })"

text \<open>The bisection, \<open>for _ in range(30)\<close>: the natural number counts the iterations
  that are left.\<close>

fun bisect :: "(real \<Rightarrow> real option) \<Rightarrow> nat \<Rightarrow> real \<Rightarrow> real \<Rightarrow> real \<Rightarrow> real \<Rightarrow> real" where
  "bisect Fn 0 lo hi flo fhi = normalize_deg ((lo + hi) / 2)"
| "bisect Fn (Suc n) lo hi flo fhi =
     (let mid = (lo + hi) / 2
      in case Fn mid of
           None \<Rightarrow> bisect Fn n mid hi flo fhi
         | Some fmid \<Rightarrow>
             if \<bar>fmid\<bar> < 1 / 10 ^ 6 then normalize_deg mid
             else if flo * fmid \<le> 0 then bisect Fn n lo mid flo fmid
             else bisect Fn n mid hi fmid fhi)"

text \<open>The body of \<open>for lam in iter_window(...)\<close>, over the angles the generator yields;
  \<open>prev_lam\<close> and \<open>prev_val\<close> are the two locals it updates.\<close>

fun scan_samples :: "(real \<Rightarrow> real option) \<Rightarrow> real list \<Rightarrow> real option \<Rightarrow> real option \<Rightarrow> real option" where
  "scan_samples Fn [] prev_lam prev_val = None"
| "scan_samples Fn (lam # rest) prev_lam prev_val =
     (let val = Fn lam
      in case (prev_val, val, prev_lam) of
           (Some pv, Some v, Some pl) \<Rightarrow>
             if pv = 0 then Some pl
             else if v = 0 then Some lam
             else if pv * v < 0 then Some (bisect Fn 30 pl lam pv v)
             else scan_samples Fn rest (Some lam) val
         | _ \<Rightarrow> scan_samples Fn rest (Some lam) val)"

text \<open>The outer \<open>option\<close> is the termination of the scan, the inner one the
  \<open>Optional[float]\<close> of the source. Python's generator is lazy and the model takes
  all its angles first: the two agree whenever the generator stops, which it does for the
  steps the program passes (\<open>iter_window_returns\<close>).\<close>

definition solve_lambda_by_OA ::
  "real \<Rightarrow> real \<Rightarrow> real \<Rightarrow> real \<Rightarrow> real \<Rightarrow> real \<Rightarrow> real \<Rightarrow> real \<Rightarrow> bool \<Rightarrow> real option option" where
  "solve_lambda_by_OA obliquity_degrees latitude n_frac base_ramc sign_factor
       win_start win_end init_step_deg use_descension =
     (let base = normalize_deg base_ramc
      in do {
        lams \<leftarrow> iter_window win_start win_end init_step_deg;
        Some (scan_samples (F obliquity_degrees latitude base n_frac sign_factor use_descension)
                lams None None)
      })"

subsection \<open>The dense-sampling fallback\<close>

text \<open>\<open>solve_with_fallback\<close> is only ever called with the defaults of its last two
  parameters.\<close>

definition sign_factor_opts :: "real list" where
  "sign_factor_opts = [1, - 1]"

definition sample_step :: real where
  "sample_step = 5 / 100"

text \<open>\<open>int(360.0 / sample_step) + 5\<close>.\<close>

definition guard_cap :: nat where
  "guard_cap = nat \<lfloor>360 / sample_step\<rfloor> + 5"

type_synonym best = "(real \<times> real \<times> real) option"

text \<open>\<open>for s in sign_factor_opts\<close>, at one sample angle.\<close>

fun try_signs :: "(real \<Rightarrow> real \<Rightarrow> real option) \<Rightarrow> real \<Rightarrow> real list \<Rightarrow> best \<Rightarrow> best" where
  "try_signs Fv angle [] best = best"
| "try_signs Fv angle (s # ss) best =
     (case Fv angle s of
        None \<Rightarrow> try_signs Fv angle ss best
      | Some fv \<Rightarrow>
          (let af = \<bar>fv\<bar>
           in if (case best of None \<Rightarrow> True | Some (b0, b1, b2) \<Rightarrow> af < b0)
              then try_signs Fv angle ss (Some (af, angle, s))
              else try_signs Fv angle ss best))"

text \<open>The sampling loop, with its locals \<open>best\<close>, \<open>angle\<close> and \<open>guard\<close>; it returns
  them as they are when the loop is left.\<close>

function dense_loop ::
  "(real \<Rightarrow> real \<Rightarrow> real option) \<Rightarrow> real \<Rightarrow> best \<Rightarrow> real \<Rightarrow> nat \<Rightarrow> best \<times> real \<times> nat" where
  "dense_loop Fv end_n best angle guard =
     (let best' = try_signs Fv angle sign_factor_opts best;
          angle' = normalize_deg (angle + sample_step);
          guard' = guard + 1
      in if \<bar>circ_diff angle' end_n\<bar> \<le> sample_step * 0.5 \<or> guard_cap < guard'
         then (best', angle', guard')
         else dense_loop Fv end_n best' angle' guard')"
  by pat_completeness auto
termination
  by (relation "measure (\<lambda>(Fv, end_n, best, angle, guard). guard_cap + 1 - guard)") auto

text \<open>The secant refinement, \<open>for _ in range(20)\<close>; \<open>Fs\<close> is \<open>F_val\<close> at the sign
  that was chosen.\<close>

fun secant_loop ::
  "(real \<Rightarrow> real option) \<Rightarrow> real \<Rightarrow> real \<Rightarrow> nat \<Rightarrow> real \<Rightarrow> real \<Rightarrow> real \<Rightarrow> real \<Rightarrow> real" where
  "secant_loop Fs win_start win_end 0 lam0 f0 lam1 f1 = lam1"
| "secant_loop Fs win_start win_end (Suc n) lam0 f0 lam1 f1 =
     (if f1 - f0 = 0 then lam1
      else
        (let lam2 = normalize_deg (lam1 - f1 * (lam1 - lam0) / (f1 - f0));
             lam2 = (if circ_diff lam2 win_start < 0 \<or> circ_diff win_end lam2 < 0
                     then normalize_deg ((win_start + win_end) / 2) else lam2)
         in case Fs lam2 of
              None \<Rightarrow> lam1
            | Some f2 \<Rightarrow>
                if \<bar>f2\<bar> < 1 / 10 ^ 6 then lam2
                else secant_loop Fs win_start win_end n lam1 f1 lam2 f2))"

definition solve_with_fallback ::
  "real \<Rightarrow> real \<Rightarrow> real \<Rightarrow> real \<Rightarrow> real \<Rightarrow> real \<Rightarrow> bool \<Rightarrow> real option" where
  "solve_with_fallback obliquity_degrees latitude n_frac base_ramc win_start win_end use_descension =
     (let base = normalize_deg base_ramc;
          Fv = F_val obliquity_degrees latitude base n_frac use_descension;
          (best, angle, guard) =
             dense_loop Fv (normalize_deg win_end) None (normalize_deg win_start) 0
      in case best of
           None \<Rightarrow> None
         | Some (af, lam0, s0) \<Rightarrow>
             (let lam1 = normalize_deg (lam0 + sample_step)
              in case (Fv lam0 s0, Fv lam1 s0) of
                   (Some f0, Some f1) \<Rightarrow>
                     Some (secant_loop (\<lambda>l. Fv l s0) win_start win_end 20 lam0 f0 lam1 f1)
                 | _ \<Rightarrow> Some lam0))"

subsection \<open>The Placidus cusps\<close>

definition win_ccw :: "real \<Rightarrow> real \<Rightarrow> real \<times> real" where
  "win_ccw start end = (normalize_deg start, normalize_deg end)"

text \<open>The four solved cusps \<open>(c11, c12, c3, c2)\<close>. Cusps 11 and 12 come from
  \<open>solve_lambda_by_OA\<close> alone; cusps 3 and 2 go on to \<open>solve_with_fallback\<close> when it
  finds nothing.\<close>

definition placidus_solve ::
  "real \<Rightarrow> real \<Rightarrow> real \<Rightarrow> real \<Rightarrow> real \<Rightarrow> (real option \<times> real option \<times> real option \<times> real option) option" where
  "placidus_solve obliquity_degrees latitude ramc_degrees asc_longitude mc_longitude =
     (let asc = normalize_deg asc_longitude;
          mc = normalize_deg mc_longitude;
          ic = normalize_deg (mc + 180);
          win_asc_ic = win_ccw asc ic;
          win_mc_asc = win_ccw mc asc
      in do {
        c11 \<leftarrow> solve_lambda_by_OA obliquity_degrees latitude (2 / 3) ramc_degrees 1
                 (fst win_mc_asc) (snd win_mc_asc) 0.5 False;
        c12 \<leftarrow> solve_lambda_by_OA obliquity_degrees latitude (1 / 3) ramc_degrees 1
                 (case c11 of Some v \<Rightarrow> v | None \<Rightarrow> fst win_mc_asc) (snd win_mc_asc) 0.5 False;
        c3s \<leftarrow> solve_lambda_by_OA obliquity_degrees latitude (2 / 3) (ramc_degrees + 180) 1
                 (fst win_asc_ic) (snd win_asc_ic) 0.1 True;
        let c3 = (case c3s of
                    None \<Rightarrow> solve_with_fallback obliquity_degrees latitude (2 / 3)
                              (ramc_degrees + 180) (fst win_asc_ic) (snd win_asc_ic) True
                  | Some v \<Rightarrow> Some v);
        c2s \<leftarrow> solve_lambda_by_OA obliquity_degrees latitude (1 / 3) (ramc_degrees + 180) 1
                 (fst win_asc_ic) (case c3 of Some v \<Rightarrow> v | None \<Rightarrow> snd win_asc_ic) 0.1 True;
        let c2 = (case c2s of
                    None \<Rightarrow> solve_with_fallback obliquity_degrees latitude (1 / 3)
                              (ramc_degrees + 180) (fst win_asc_ic)
                              (case c3 of Some v \<Rightarrow> v | None \<Rightarrow> snd win_asc_ic) True
                  | Some v \<Rightarrow> Some v);
        Some (c11, c12, c3, c2)
      })"

text \<open>The list \<open>cusp_values\<close> in the order of its \<open>append\<close> calls, and the dictionary
  \<open>cv_map\<close> built from it and completed with the opposite cusps. \<open>cv_get\<close> is
  \<open>cv_map.get(i)\<close>: an absent key and a stored \<open>None\<close> both read as \<open>None\<close>.\<close>

definition cusp_values ::
  "real \<Rightarrow> real \<Rightarrow> real option \<times> real option \<times> real option \<times> real option \<Rightarrow> (nat \<times> real option) list" where
  "cusp_values asc_longitude mc_longitude cs =
     (case cs of (c11, c12, c3, c2) \<Rightarrow>
        [(1, Some (normalize_deg asc_longitude)),
         (11, c11),
         (12, c12),
         (10, Some (normalize_deg mc_longitude)),
         (7, Some (normalize_deg (asc_longitude + 180))),
         (4, Some (normalize_deg (mc_longitude + 180))),
         (3, c3),
         (2, c2)])"

definition cv_get :: "(nat \<rightharpoonup> real option) \<Rightarrow> nat \<Rightarrow> real option" where
  "cv_get m i = (case m i of None \<Rightarrow> None | Some v \<Rightarrow> v)"

definition mirror :: "nat \<Rightarrow> nat \<Rightarrow> (nat \<rightharpoonup> real option) \<Rightarrow> (nat \<rightharpoonup> real option)" where
  "mirror src dst m =
     (case cv_get m src of
        None \<Rightarrow> m
      | Some v \<Rightarrow> m(dst \<mapsto> Some (normalize_deg (v + 180))))"

definition cv_map ::
  "real \<Rightarrow> real \<Rightarrow> real option \<times> real option \<times> real option \<times> real option \<Rightarrow> (nat \<rightharpoonup> real option)" where
  "cv_map asc_longitude mc_longitude cs =
     mirror 3 9 (mirror 2 8 (mirror 12 6 (mirror 11 5
       (map_of (cusp_values asc_longitude mc_longitude cs)))))"

definition equal_fallback :: "real \<Rightarrow> real list" where
  "equal_fallback asc_longitude = map (\<lambda>i. normalize_deg (asc_longitude + real i * 30)) [0..<12]"

definition number_to_long ::
  "real \<Rightarrow> real \<Rightarrow> real option \<times> real option \<times> real option \<times> real option \<Rightarrow> nat \<Rightarrow> real" where
  "number_to_long asc_longitude mc_longitude cs i =
     (case cv_get (cv_map asc_longitude mc_longitude cs) i of
        None \<Rightarrow> equal_fallback asc_longitude ! ((i - 1) mod 12)
      | Some v \<Rightarrow> normalize_deg v)"

subsection \<open>The result\<close>

text \<open>\<open>get_zodiac_sign_jp\<close> of \<open>calculate_planets.py\<close> indexes a table of twelve
  names; the model keeps the index, \<open>int(longitude_deg // 30) % 12\<close>.\<close>

definition get_zodiac_sign_jp :: "real \<Rightarrow> nat" where
  "get_zodiac_sign_jp longitude_deg = nat (\<lfloor>longitude_deg / 30\<rfloor> mod 12)"

text \<open>The dictionaries of the result. The key \<open>longitude\<close> is the field
  \<open>hlongitude\<close> of a house and \<open>plongitude\<close> of an angle point.\<close>

record house =
  number :: nat
  sign :: nat
  hlongitude :: real

record point =
  psign :: nat
  plongitude :: real

record result =
  ascendant :: point
  descendant :: point
  mc :: point
  ic :: point
  houses :: "house list"

definition mk_house :: "nat \<Rightarrow> real \<Rightarrow> house" where
  "mk_house n lon = \<lparr>number = n, sign = get_zodiac_sign_jp lon, hlongitude = lon\<rparr>"

definition mk_point :: "real \<Rightarrow> point" where
  "mk_point lon = \<lparr>psign = get_zodiac_sign_jp lon, plongitude = lon\<rparr>"

definition equal_houses :: "real \<Rightarrow> house list" where
  "equal_houses asc_longitude =
     map (\<lambda>i. mk_house (i + 1) (fmod_py (asc_longitude + real i * 30) 360)) [0..<12]"

definition koch_house_cusps :: "real \<Rightarrow> real \<Rightarrow> real list" where
  "koch_house_cusps asc_longitude mc_longitude =
     [asc_longitude,
      fmod_py (asc_longitude + 30) 360,
      fmod_py (asc_longitude + 60) 360,
      fmod_py (mc_longitude + 180) 360,
      fmod_py (asc_longitude + 120) 360,
      fmod_py (asc_longitude + 150) 360,
      fmod_py (asc_longitude + 180) 360,
      fmod_py (asc_longitude + 210) 360,
      fmod_py (asc_longitude + 240) 360,
      mc_longitude,
      fmod_py (asc_longitude + 300) 360,
      fmod_py (asc_longitude + 330) 360]"

definition koch_houses :: "real \<Rightarrow> real \<Rightarrow> house list" where
  "koch_houses asc_longitude mc_longitude =
     map (\<lambda>(i, cusp_longitude). mk_house (i + 1) cusp_longitude)
       (enumerate 0 (koch_house_cusps asc_longitude mc_longitude))"

definition placidus_houses ::
  "real \<Rightarrow> real \<Rightarrow> real option \<times> real option \<times> real option \<times> real option \<Rightarrow> house list" where
  "placidus_houses asc_longitude mc_longitude cs =
     map (\<lambda>i. mk_house i (number_to_long asc_longitude mc_longitude cs i)) [1..<13]"

subsection \<open>\<open>calculate_houses\<close>\<close>

text \<open>
  The formula path (\<open>HOUSE_ENGINE\<close> is not \<open>SWISS\<close>), with the ephemeris and the
  timescale at hand. Skyfield is outside the repository: of the time \<open>t\<close> that
  \<open>ts.from_datetime(dt_utc)\<close> returns, the function reads \<open>t.gast\<close> and \<open>t.tt\<close>, and the
  model takes these two numbers in place of \<open>dt_utc\<close>. \<open>Topos\<close> builds an observer
  that is never used.

  The quotient \<open>asc_numerator / asc_denominator\<close> only feeds a log line, but it is
  evaluated, and a Python float division by zero raises.
\<close>

record skytime =
  gast :: real
  tt :: real

datatype error = ZeroDivisionError

definition ramc_of :: "skytime \<Rightarrow> real \<Rightarrow> real" where
  "ramc_of t longitude =
     (let lst_skyfield = gast t + longitude / 15;
          lst_degrees = fmod_py (lst_skyfield * 15) 360
      in lst_degrees)"

definition obliquity_of :: "skytime \<Rightarrow> real" where
  "obliquity_of t =
     (let jd_tt = tt t;
          T = (jd_tt - 2451545) / 36525;
          eps_arcsec = 21.448 - 46.8150 * T - 0.00059 * T ^ 2 + 0.001813 * T ^ 3
      in 23 + 26 / 60 + eps_arcsec / 3600)"

definition mc_longitude_of :: "real \<Rightarrow> real \<Rightarrow> real" where
  "mc_longitude_of ramc_degrees obliquity_degrees =
     (let ramc_rad = radians ramc_degrees;
          obliquity_rad = radians obliquity_degrees
      in fmod_py (degrees (atan2 (sin ramc_rad) (cos ramc_rad * cos obliquity_rad))) 360)"

definition asc_numerator :: "real \<Rightarrow> real" where
  "asc_numerator ramc_degrees = - cos (radians ramc_degrees)"

definition asc_denominator :: "real \<Rightarrow> real \<Rightarrow> real \<Rightarrow> real" where
  "asc_denominator ramc_degrees obliquity_degrees latitude =
     cos (radians obliquity_degrees) * sin (radians ramc_degrees)
       + tan_py (radians latitude) * sin (radians obliquity_degrees)"

definition asc_longitude_of :: "real \<Rightarrow> real \<Rightarrow> real \<Rightarrow> real" where
  "asc_longitude_of ramc_degrees obliquity_degrees latitude =
     (let asc_longitude =
            degrees (atan2 (asc_numerator ramc_degrees)
                       (asc_denominator ramc_degrees obliquity_degrees latitude));
          asc_longitude = (if asc_longitude < 0 then asc_longitude + 360 else asc_longitude)
      in fmod_py (asc_longitude + 180) 360)"

definition mk_result :: "real \<Rightarrow> real \<Rightarrow> house list \<Rightarrow> result" where
  "mk_result asc_longitude mc_longitude hs =
     (let dc_longitude = fmod_py (asc_longitude + 180) 360;
          ic_longitude = fmod_py (mc_longitude + 180) 360
      in \<lparr>ascendant = mk_point asc_longitude,
          descendant = mk_point dc_longitude,
          mc = mk_point mc_longitude,
          ic = mk_point ic_longitude,
          houses = hs\<rparr>)"

text \<open>The outer \<open>option\<close> is termination (\<open>None\<close>: the call never returns), the sum is
  the exception or the dictionary that is returned.\<close>

definition calculate_houses :: "skytime \<Rightarrow> real \<Rightarrow> real \<Rightarrow> string \<Rightarrow> (error + result) option" where
  "calculate_houses t latitude longitude system =
     (let ramc_degrees = ramc_of t longitude;
          obliquity_degrees = obliquity_of t;
          mc_longitude = mc_longitude_of ramc_degrees obliquity_degrees
      in if asc_denominator ramc_degrees obliquity_degrees latitude = 0
         then Some (Inl ZeroDivisionError)
         else
           (let asc_longitude = asc_longitude_of ramc_degrees obliquity_degrees latitude
            in if system = ''equal''
               then Some (Inr (mk_result asc_longitude mc_longitude (equal_houses asc_longitude)))
               else if system = ''koch''
               then Some (Inr (mk_result asc_longitude mc_longitude
                                 (koch_houses asc_longitude mc_longitude)))
               else do {
                 cs \<leftarrow> placidus_solve obliquity_degrees latitude ramc_degrees
                         asc_longitude mc_longitude;
                 Some (Inr (mk_result asc_longitude mc_longitude
                              (placidus_houses asc_longitude mc_longitude cs)))
               }))"

subsection \<open>The Koch cusps in floating point\<close>

text \<open>
  Whether two cusps are equal bit for bit depends on the rounding of each float
  operation, so the Koch branch is also given with its rounding written out. A Python
  float is an IEEE 754 double: \<open>round_double\<close> rounds a real to the nearest double,
  ties to the even significand (53 bits). Overflow and subnormal numbers are left out:
  every sum rounded below lies between 30 and 720.

  \<open>float_add\<close> is \<open>+\<close> on floats. \<open>float_mod\<close> is \<open>%\<close> on floats as CPython
  computes it: the C function \<open>fmod\<close>, which is exact and truncates the quotient,
  followed by the addition of the divisor when the signs differ. The integers 30, 60, ...
  and 360 of the source convert to floats exactly.
\<close>

definition round_half_even :: "real \<Rightarrow> int" where
  "round_half_even m =
     (let f = \<lfloor>m\<rfloor>; d = m - of_int f
      in if d < 1 / 2 then f else if 1 / 2 < d then f + 1 else if even f then f else f + 1)"

definition round_double :: "real \<Rightarrow> real" where
  "round_double x =
     (if x = 0 then 0
      else (let e = \<lfloor>log 2 \<bar>x\<bar>\<rfloor>; u = 2 powr (of_int e - 52)
            in u * of_int (round_half_even (x / u))))"

definition float_add :: "real \<Rightarrow> real \<Rightarrow> real" where
  "float_add a b = round_double (a + b)"

definition float_mod :: "real \<Rightarrow> real \<Rightarrow> real" where
  "float_mod x m =
     (let q = x / m;
          r = x - m * of_int (if 0 \<le> q then \<lfloor>q\<rfloor> else \<lceil>q\<rceil>)
      in if r \<noteq> 0 \<and> ((m < 0) \<noteq> (r < 0)) then round_double (r + m) else r)"

text \<open>The list \<open>house_cusps\<close> of the koch branch (lines 255 to 268), on floats.
  \<open>asc_longitude\<close> and \<open>mc_longitude\<close> are the floats that the angle formulas left:
  both lie in \<open>[0, 360]\<close> after their \<open>% 360\<close>.\<close>

definition koch_house_cusps_float :: "real \<Rightarrow> real \<Rightarrow> real list" where
  "koch_house_cusps_float asc_longitude mc_longitude =
     [asc_longitude,
      float_mod (float_add asc_longitude 30) 360,
      float_mod (float_add asc_longitude 60) 360,
      float_mod (float_add mc_longitude 180) 360,
      float_mod (float_add asc_longitude 120) 360,
      float_mod (float_add asc_longitude 150) 360,
      float_mod (float_add asc_longitude 180) 360,
      float_mod (float_add asc_longitude 210) 360,
      float_mod (float_add asc_longitude 240) 360,
      mc_longitude,
      float_mod (float_add asc_longitude 300) 360,
      float_mod (float_add asc_longitude 330) 360]"


subsection \<open>Iteration counts\<close>

text \<open>The number of times the body of the bisection loop runs, along the same path as
  \<open>bisect\<close>.\<close>

fun bisect_iterations :: "(real \<Rightarrow> real option) \<Rightarrow> nat \<Rightarrow> real \<Rightarrow> real \<Rightarrow> real \<Rightarrow> real \<Rightarrow> nat" where
  "bisect_iterations Fn 0 lo hi flo fhi = 0"
| "bisect_iterations Fn (Suc n) lo hi flo fhi =
     (let mid = (lo + hi) / 2
      in case Fn mid of
           None \<Rightarrow> Suc (bisect_iterations Fn n mid hi flo fhi)
         | Some fmid \<Rightarrow>
             if \<bar>fmid\<bar> < 1 / 10 ^ 6 then 1
             else if flo * fmid \<le> 0 then Suc (bisect_iterations Fn n lo mid flo fmid)
             else Suc (bisect_iterations Fn n mid hi fmid fhi))"

text \<open>The number of times the body of the secant loop runs, along the same path as
  \<open>secant_loop\<close>.\<close>

fun secant_iterations ::
  "(real \<Rightarrow> real option) \<Rightarrow> real \<Rightarrow> real \<Rightarrow> nat \<Rightarrow> real \<Rightarrow> real \<Rightarrow> real \<Rightarrow> real \<Rightarrow> nat" where
  "secant_iterations Fs win_start win_end 0 lam0 f0 lam1 f1 = 0"
| "secant_iterations Fs win_start win_end (Suc n) lam0 f0 lam1 f1 =
     (if f1 - f0 = 0 then 1
      else
        (let lam2 = normalize_deg (lam1 - f1 * (lam1 - lam0) / (f1 - f0));
             lam2 = (if circ_diff lam2 win_start < 0 \<or> circ_diff win_end lam2 < 0
                     then normalize_deg ((win_start + win_end) / 2) else lam2)
         in case Fs lam2 of
              None \<Rightarrow> 1
            | Some f2 \<Rightarrow>
                if \<bar>f2\<bar> < 1 / 10 ^ 6 then 1
                else Suc (secant_iterations Fs win_start win_end n lam1 f1 lam2 f2)))"


text \<open>The houses are listed by number: \<open>cusp r n\<close> reads the longitude of the
  entry at index \<open>n - 1\<close>.\<close>

definition cusp :: "result \<Rightarrow> nat \<Rightarrow> real" where
  "cusp r n = hlongitude (houses r ! (n - 1))"

section \<open>Properties\<close>

subsection \<open>Angle arithmetic\<close>

declare dense_loop.simps [simp del]

lemma fmod_py_range: "0 \<le> fmod_py x 360 \<and> fmod_py x 360 < 360"
proof -
  have "of_int \<lfloor>x / 360\<rfloor> \<le> x / 360" "x / 360 < of_int \<lfloor>x / 360\<rfloor> + 1" by linarith+
  then show ?thesis unfolding fmod_py_def by (simp add: field_simps)
qed

lemma fmod_py_shift: "fmod_py (x + 360 * of_int k) 360 = fmod_py x 360"
proof -
  have "(x + 360 * of_int k) / 360 = x / 360 + of_int k" by simp
  then have "\<lfloor>(x + 360 * of_int k) / 360\<rfloor> = \<lfloor>x / 360 + of_int k\<rfloor>" by (simp only:)
  then have "\<lfloor>(x + 360 * of_int k) / 360\<rfloor> = \<lfloor>x / 360\<rfloor> + k" by (simp only: floor_add_int)
  then show ?thesis unfolding fmod_py_def by (simp add: algebra_simps)
qed

lemma fmod_py_id: "0 \<le> x \<Longrightarrow> x < 360 \<Longrightarrow> fmod_py x 360 = x"
proof -
  assume "0 \<le> x" "x < 360"
  then have "\<lfloor>x / 360\<rfloor> = 0" by (simp add: floor_eq_iff)
  then show ?thesis unfolding fmod_py_def by simp
qed

lemma fmod_py_cong: "x = y + 360 * of_int k \<Longrightarrow> fmod_py x 360 = fmod_py y 360"
  using fmod_py_shift by simp

lemma fmod_py_add_left: "fmod_py (fmod_py x 360 + y) 360 = fmod_py (x + y) 360"
proof -
  have "x + y = (fmod_py x 360 + y) + 360 * of_int \<lfloor>x / 360\<rfloor>" unfolding fmod_py_def by simp
  then show ?thesis using fmod_py_cong by metis
qed

lemma normalize_deg_fmod: "normalize_deg x = fmod_py x 360"
  using fmod_py_range [of x] by (simp add: normalize_deg_def Let_def)

lemma normalize_deg_range: "0 \<le> normalize_deg x \<and> normalize_deg x < 360"
  by (simp add: normalize_deg_fmod fmod_py_range)

lemma normalize_deg_add_left: "normalize_deg (normalize_deg x + y) = normalize_deg (x + y)"
  by (simp add: normalize_deg_fmod fmod_py_add_left)

lemma circ_diff_range: "- 180 \<le> circ_diff a b \<and> circ_diff a b < 180"
  using fmod_py_range [of "a - b + 180"] by (simp add: circ_diff_def)

lemma circ_diff_eq: "a - b = d + 360 * of_int k \<Longrightarrow> - 180 \<le> d \<Longrightarrow> d < 180 \<Longrightarrow> circ_diff a b = d"
proof -
  assume h: "a - b = d + 360 * of_int k" "- 180 \<le> d" "d < 180"
  have "a - b + 180 = (d + 180) + 360 * of_int k" using h by simp
  then have "fmod_py (a - b + 180) 360 = fmod_py (d + 180) 360" by (rule fmod_py_cong)
  also have "\<dots> = d + 180" using h by (intro fmod_py_id) auto
  finally show ?thesis by (simp add: circ_diff_def)
qed

subsection \<open>The window scan returns\<close>

lemma circ_diff_abs_le:
  assumes "a - b = d + 360 * of_int k" "\<bar>d\<bar> \<le> h" "h \<le> 180"
  shows "\<bar>circ_diff a b\<bar> \<le> h"
proof (cases "d = 180")
  case True
  then have "h = 180" using assms by simp
  then show ?thesis using circ_diff_range [of a b] unfolding abs_le_iff by linarith
next
  case False
  then have "- 180 \<le> d" "d < 180" using assms by auto
  then have "circ_diff a b = d" using assms(1) circ_diff_eq by blast
  then show ?thesis using assms by simp
qed

text \<open>When the step divides the circle into \<open>m\<close> parts, one of the next \<open>m\<close>
  samples is within half a step of any target angle.\<close>

lemma window_reach:
  assumes m: "0 < m"
  shows "\<exists>k. 1 \<le> k \<and> k \<le> m \<and> \<bar>circ_diff (normalize_deg (a + real k * (360 / real m))) e\<bar> \<le> 360 / real m * 0.5"
proof -
  define step where "step = 360 / real m"
  have step_pos: "0 < step" using m by (simp add: step_def)
  have mstep: "real m * step = 360" using m by (simp add: step_def)
  define d where "d = fmod_py (e - a) 360"
  have d_range: "0 \<le> d" "d < 360" using fmod_py_range [of "e - a"] by (simp_all add: d_def)
  have ea: "e - a = d + 360 * of_int \<lfloor>(e - a) / 360\<rfloor>" by (simp add: d_def fmod_py_def)
  define q where "q = \<lfloor>d / step + 1 / 2\<rfloor>"
  have q1: "of_int q \<le> d / step + 1 / 2" "d / step + 1 / 2 < of_int q + 1" unfolding q_def by linarith+
  have q_nonneg: "0 \<le> q" using d_range step_pos by (simp add: q_def)
  have "d / step < real m" using d_range step_pos mstep by (simp add: field_simps)
  then have "of_int q < real m + 1 / 2" using q1 by linarith
  then have "of_int q < real m + 1" by linarith
  then have "q < int m + 1" by linarith
  then have q_le: "q \<le> int m" by simp
  have close: "\<bar>of_int q * step - d\<bar> \<le> step * 0.5"
  proof -
    have "of_int q * step \<le> d + step / 2" using q1(1) step_pos by (simp add: field_simps)
    moreover have "d + step / 2 < of_int q * step + step" using q1(2) step_pos by (simp add: field_simps)
    ultimately show ?thesis unfolding abs_le_iff by linarith
  qed
  have half: "step * 0.5 \<le> 180"
  proof -
    have "1 \<le> real m" using m by simp
    then have "step \<le> 360" using m by (simp add: step_def field_simps)
    then show ?thesis by simp
  qed
  define k where "k = (if q = 0 then m else nat q)"
  have k_range: "1 \<le> k" "k \<le> m" using q_nonneg q_le m by (auto simp: k_def)
  have kq: "\<exists>c::int. real k * step = of_int q * step + 360 * of_int c"
  proof (cases "q = 0")
    case True
    then have "real k * step = of_int q * step + 360 * of_int 1" using mstep by (simp add: k_def)
    then show ?thesis by blast
  next
    case False
    then have "real k = of_int q" using q_nonneg by (simp add: k_def)
    then have "real k * step = of_int q * step + 360 * of_int 0" by simp
    then show ?thesis by blast
  qed
  then obtain c :: int where c: "real k * step = of_int q * step + 360 * of_int c" by blast
  define x where "x = a + real k * step"
  have nx: "normalize_deg x = x - 360 * of_int \<lfloor>x / 360\<rfloor>" by (simp add: normalize_deg_fmod fmod_py_def)
  have "normalize_deg x - e = (of_int q * step - d) + 360 * of_int (c - \<lfloor>x / 360\<rfloor> - \<lfloor>(e - a) / 360\<rfloor>)"
    using nx c ea by (simp add: x_def algebra_simps)
  then have "\<bar>circ_diff (normalize_deg x) e\<bar> \<le> step * 0.5"
    using close half circ_diff_abs_le by blast
  then show ?thesis using k_range unfolding x_def step_def by blast
qed

lemma iter_window_loop_returns:
  "\<exists>k. 1 \<le> k \<and> k \<le> n \<and> \<bar>circ_diff (normalize_deg (angle + real k * step)) end_n\<bar> \<le> step * 0.5 \<Longrightarrow>
   \<exists>xs. iter_window_loop angle end_n step = Some xs \<and> xs \<noteq> [] \<and> length xs \<le> n \<and>
        \<bar>circ_diff (last xs) end_n\<bar> \<le> step * 0.5"
proof (induction n arbitrary: angle)
  case 0
  then show ?case by simp
next
  case (Suc n)
  define angle' where "angle' = normalize_deg (angle + step)"
  show ?case
  proof (cases "\<bar>circ_diff angle' end_n\<bar> \<le> step * 0.5")
    case True
    then have "iter_window_loop angle end_n step = Some [angle']"
      by (subst iter_window_loop.simps) (simp add: angle'_def Let_def)
    then show ?thesis using True by simp
  next
    case False
    from Suc.prems obtain k where k: "1 \<le> k" "k \<le> Suc n"
      "\<bar>circ_diff (normalize_deg (angle + real k * step)) end_n\<bar> \<le> step * 0.5" by blast
    have "k \<noteq> 1" using False k(3) by (auto simp: angle'_def)
    then have k2: "1 \<le> k - 1" "k - 1 \<le> n" using k by auto
    have "normalize_deg (angle' + real (k - 1) * step) = normalize_deg (angle + step + real (k - 1) * step)"
      unfolding angle'_def by (rule normalize_deg_add_left)
    also have "angle + step + real (k - 1) * step = angle + real k * step"
      using k(1) by (simp add: algebra_simps of_nat_diff)
    finally have "\<bar>circ_diff (normalize_deg (angle' + real (k - 1) * step)) end_n\<bar> \<le> step * 0.5"
      using k(3) by simp
    with k2 have "\<exists>k. 1 \<le> k \<and> k \<le> n \<and> \<bar>circ_diff (normalize_deg (angle' + real k * step)) end_n\<bar> \<le> step * 0.5"
      by blast
    from Suc.IH [OF this] obtain xs where xs: "iter_window_loop angle' end_n step = Some xs"
      "xs \<noteq> []" "length xs \<le> n" "\<bar>circ_diff (last xs) end_n\<bar> \<le> step * 0.5" by blast
    have "iter_window_loop angle end_n step = Some (angle' # xs)"
      using False xs(1) by (subst iter_window_loop.simps) (simp add: angle'_def Let_def)
    then show ?thesis using xs by simp
  qed
qed

lemma iter_window_returns:
  assumes "0 < m"
  shows "\<exists>lams. iter_window win_start win_end (360 / real m) = Some lams \<and> lams \<noteq> [] \<and> length lams \<le> m + 1 \<and>
     \<bar>circ_diff (last lams) (normalize_deg win_end)\<bar> \<le> 360 / real m * 0.5"
proof -
  from iter_window_loop_returns [OF window_reach [OF assms]]
  obtain xs where xs: "iter_window_loop (normalize_deg (win_start + 360 / real m)) (normalize_deg win_end) (360 / real m) = Some xs"
      "xs \<noteq> []" "length xs \<le> m" "\<bar>circ_diff (last xs) (normalize_deg win_end)\<bar> \<le> 360 / real m * 0.5" by blast
  then show ?thesis by (simp add: iter_window_def Let_def)
qed

lemma solve_lambda_by_OA_returns:
  assumes "0 < m"
  shows "\<exists>r. solve_lambda_by_OA eps lat n_frac base_ramc sign_factor win_start win_end (360 / real m) ud = Some r"
  using iter_window_returns [OF assms, of win_start win_end]
  by (auto simp: solve_lambda_by_OA_def Let_def)

lemma solve_lambda_by_OA_half:
  "\<exists>r. solve_lambda_by_OA eps lat n_frac base_ramc sign_factor win_start win_end 0.5 ud = Some r"
  using solve_lambda_by_OA_returns [of 720] by simp

lemma solve_lambda_by_OA_tenth:
  "\<exists>r. solve_lambda_by_OA eps lat n_frac base_ramc sign_factor win_start win_end 0.1 ud = Some r"
  using solve_lambda_by_OA_returns [of 3600] by simp

lemma bind_returns:
  "\<exists>a. m = Some a \<Longrightarrow> (\<And>a. \<exists>b. f a = Some b) \<Longrightarrow> \<exists>b. (m \<bind> f) = Some b"
  by (cases m) auto

lemma placidus_solve_returns:
  "\<exists>cs. placidus_solve eps lat ramc asc_longitude mc_longitude = Some cs"
  unfolding placidus_solve_def Let_def
  by (intro bind_returns solve_lambda_by_OA_half solve_lambda_by_OA_tenth) simp

subsection \<open>Reference inputs\<close>

lemma obliquity_J2000: "obliquity_of \<lparr>gast = g, tt = 2451545\<rparr> = 10547681 / 450000"
  by (simp add: obliquity_of_def Let_def)

lemma radians_bounds:
  assumes "- 90 < d" "d < 90"
  shows "- (pi / 2) < radians d" "radians d < pi / 2"
proof -
  have p: "0 < pi / 180" by simp
  have "- 90 * (pi / 180) < d * (pi / 180)" using assms(1) p by (rule mult_strict_right_mono)
  then show "- (pi / 2) < radians d" by (simp add: radians_def)
  have "d * (pi / 180) < 90 * (pi / 180)" using assms(2) p by (rule mult_strict_right_mono)
  then show "radians d < pi / 2" by (simp add: radians_def)
qed

lemma cos_radians_pos: "- 90 < d \<Longrightarrow> d < 90 \<Longrightarrow> 0 < cos (radians d)"
  using radians_bounds [of d] by (simp add: cos_gt_zero_pi)

lemma cos_obliquity_J2000_pos: "0 < cos (radians (10547681 / 450000))"
  by (rule cos_radians_pos) simp_all

lemma ramc_ref: "ramc_of \<lparr>gast = 6, tt = j\<rparr> 0 = 90"
  by (simp add: ramc_of_def Let_def fmod_py_def)

lemma ramc_zero: "ramc_of \<lparr>gast = 0, tt = j\<rparr> 0 = 0"
  by (simp add: ramc_of_def Let_def fmod_py_def)

lemma radians_90: "radians 90 = pi / 2" by (simp add: radians_def)
lemma radians_0: "radians 0 = 0" by (simp add: radians_def)

lemma asc_denominator_eq_0: "asc_denominator 0 eps 0 = 0"
  by (simp add: asc_denominator_def radians_0 tan_py_def)

lemma asc_denominator_ref: "asc_denominator 90 eps 0 = cos (radians eps)"
  by (simp add: asc_denominator_def radians_0 radians_90 tan_py_def)


lemma asc_longitude_ref:
  assumes "0 < asc_denominator 90 eps lat"
  shows "asc_longitude_of 90 eps lat = 180"
  using assms by (simp add: asc_longitude_of_def asc_numerator_def radians_90 atan2_def degrees_def Let_def fmod_py_def)

lemma mc_longitude_ref: "mc_longitude_of 90 eps = 90"
  by (simp add: mc_longitude_of_def radians_90 atan2_def degrees_def Let_def fmod_py_def)

subsection \<open>The assembled cusps\<close>

lemma cv_get_solved:
  "cv_get (cv_map asc_longitude mc_longitude (c11, c12, c3, c2)) 11 = c11"
  "cv_get (cv_map asc_longitude mc_longitude (c11, c12, c3, c2)) 12 = c12"
  "cv_get (cv_map asc_longitude mc_longitude (c11, c12, c3, c2)) 3 = c3"
  "cv_get (cv_map asc_longitude mc_longitude (c11, c12, c3, c2)) 2 = c2"
  by (simp_all add: cv_map_def mirror_def cv_get_def cusp_values_def split: option.splits)

lemma cv_get_mirrored:
  "cv_get (cv_map asc_longitude mc_longitude (c11, c12, c3, c2)) 5 = map_option (\<lambda>v. normalize_deg (v + 180)) c11"
  "cv_get (cv_map asc_longitude mc_longitude (c11, c12, c3, c2)) 6 = map_option (\<lambda>v. normalize_deg (v + 180)) c12"
  "cv_get (cv_map asc_longitude mc_longitude (c11, c12, c3, c2)) 9 = map_option (\<lambda>v. normalize_deg (v + 180)) c3"
  "cv_get (cv_map asc_longitude mc_longitude (c11, c12, c3, c2)) 8 = map_option (\<lambda>v. normalize_deg (v + 180)) c2"
  by (simp_all add: cv_map_def mirror_def cv_get_def cusp_values_def split: option.splits)


lemma equal_fallback_nth:
  "k < 12 \<Longrightarrow> equal_fallback asc_longitude ! k = fmod_py (asc_longitude + real k * 30) 360"
  by (simp add: equal_fallback_def normalize_deg_fmod del: upt_Suc)

lemma number_to_long_missing:
  "1 \<le> i \<Longrightarrow> i \<le> 12 \<Longrightarrow> cv_get (cv_map asc_longitude mc_longitude cs) i = None \<Longrightarrow>
   number_to_long asc_longitude mc_longitude cs i = fmod_py (asc_longitude + real (i - 1) * 30) 360"
  by (simp add: number_to_long_def equal_fallback_nth)

lemma fmod_py_fmod_180: "fmod_py (fmod_py x 360 + 180) 360 = fmod_py (x + 180) 360"
  by (rule fmod_py_add_left)

lemma fmod_py_idem: "fmod_py (fmod_py x 360) 360 = fmod_py x 360"
  using fmod_py_add_left [of x 0] by simp

lemma fmod_py_plus_360: "fmod_py (x + 360) 360 = fmod_py x 360"
  using fmod_py_shift [of x 1] by simp

lemma number_to_long_solved:
  "number_to_long asc_longitude mc_longitude (c11, c12, c3, c2) 11 =
     (case c11 of None \<Rightarrow> fmod_py (asc_longitude + 300) 360 | Some v \<Rightarrow> fmod_py v 360)"
  "number_to_long asc_longitude mc_longitude (c11, c12, c3, c2) 12 =
     (case c12 of None \<Rightarrow> fmod_py (asc_longitude + 330) 360 | Some v \<Rightarrow> fmod_py v 360)"
  "number_to_long asc_longitude mc_longitude (c11, c12, c3, c2) 3 =
     (case c3 of None \<Rightarrow> fmod_py (asc_longitude + 60) 360 | Some v \<Rightarrow> fmod_py v 360)"
  "number_to_long asc_longitude mc_longitude (c11, c12, c3, c2) 2 =
     (case c2 of None \<Rightarrow> fmod_py (asc_longitude + 30) 360 | Some v \<Rightarrow> fmod_py v 360)"
  by (simp_all add: number_to_long_def cv_get_solved equal_fallback_nth normalize_deg_fmod
      split: option.splits)

lemma number_to_long_mirrored:
  "number_to_long asc_longitude mc_longitude (c11, c12, c3, c2) 5 =
     (case c11 of None \<Rightarrow> fmod_py (asc_longitude + 120) 360 | Some v \<Rightarrow> fmod_py (v + 180) 360)"
  "number_to_long asc_longitude mc_longitude (c11, c12, c3, c2) 6 =
     (case c12 of None \<Rightarrow> fmod_py (asc_longitude + 150) 360 | Some v \<Rightarrow> fmod_py (v + 180) 360)"
  "number_to_long asc_longitude mc_longitude (c11, c12, c3, c2) 9 =
     (case c3 of None \<Rightarrow> fmod_py (asc_longitude + 240) 360 | Some v \<Rightarrow> fmod_py (v + 180) 360)"
  "number_to_long asc_longitude mc_longitude (c11, c12, c3, c2) 8 =
     (case c2 of None \<Rightarrow> fmod_py (asc_longitude + 210) 360 | Some v \<Rightarrow> fmod_py (v + 180) 360)"
  by (simp_all add: number_to_long_def cv_get_mirrored equal_fallback_nth normalize_deg_fmod
      fmod_py_idem split: option.splits)

lemma opposite_offset:
  assumes "b + 180 = a + 360 * of_int k"
  shows "fmod_py (x + a) 360 = fmod_py (fmod_py (x + b) 360 + 180) 360"
proof -
  have "fmod_py (fmod_py (x + b) 360 + 180) 360 = fmod_py (x + b + 180) 360"
    by (rule fmod_py_add_left)
  also have "\<dots> = fmod_py (x + a) 360"
    using assms by (intro fmod_py_cong [of _ _ k]) simp
  finally show ?thesis by simp
qed

lemma opposite_case:
  assumes "b + 180 = a + 360 * of_int k"
  shows "(case c of None \<Rightarrow> fmod_py (x + a) 360 | Some v \<Rightarrow> fmod_py (v + 180) 360) =
         fmod_py ((case c of None \<Rightarrow> fmod_py (x + b) 360 | Some v \<Rightarrow> fmod_py v 360) + 180) 360"
proof (cases c)
  case None
  then show ?thesis using opposite_offset [OF assms] by simp
next
  case (Some v)
  then show ?thesis by (simp add: fmod_py_add_left)
qed

lemma number_to_long_opposite:
  "number_to_long asc_longitude mc_longitude (c11, c12, c3, c2) 5 =
     fmod_py (number_to_long asc_longitude mc_longitude (c11, c12, c3, c2) 11 + 180) 360"
  "number_to_long asc_longitude mc_longitude (c11, c12, c3, c2) 6 =
     fmod_py (number_to_long asc_longitude mc_longitude (c11, c12, c3, c2) 12 + 180) 360"
  "number_to_long asc_longitude mc_longitude (c11, c12, c3, c2) 8 =
     fmod_py (number_to_long asc_longitude mc_longitude (c11, c12, c3, c2) 2 + 180) 360"
  "number_to_long asc_longitude mc_longitude (c11, c12, c3, c2) 9 =
     fmod_py (number_to_long asc_longitude mc_longitude (c11, c12, c3, c2) 3 + 180) 360"
  unfolding number_to_long_solved number_to_long_mirrored
  by (rule opposite_case [of _ _ 1], simp)
     (rule opposite_case [of _ _ 1], simp,
      rule opposite_case [of _ _ 0], simp,
      rule opposite_case [of _ _ 0], simp)

lemma placidus_houses_nth:
  "1 \<le> i \<Longrightarrow> i \<le> 12 \<Longrightarrow>
   placidus_houses asc_longitude mc_longitude cs ! (i - 1) =
     mk_house i (number_to_long asc_longitude mc_longitude cs i)"
  by (simp add: placidus_houses_def del: upt_Suc)

lemma placidus_houses_length: "length (placidus_houses asc_longitude mc_longitude cs) = 12"
  by (simp add: placidus_houses_def del: upt_Suc)


lemma equal_houses_nth:
  "1 \<le> i \<Longrightarrow> i \<le> 12 \<Longrightarrow>
   equal_houses asc_longitude ! (i - 1) = mk_house i (fmod_py (asc_longitude + real (i - 1) * 30) 360)"
  by (simp add: equal_houses_def del: upt_Suc)

lemma equal_houses_length: "length (equal_houses asc_longitude) = 12"
  by (simp add: equal_houses_def del: upt_Suc)


lemma koch_houses_eq:
  "koch_houses asc_longitude mc_longitude =
     map (\<lambda>(n, lon). mk_house n lon) (zip [1..<13] (koch_house_cusps asc_longitude mc_longitude))"
  by (simp add: koch_houses_def koch_house_cusps_def enumerate_eq_zip upt_rec [of _ "numeral _"] upt_rec [of _ "Suc _"])

subsection \<open>The branches of \<open>calculate_houses\<close>\<close>

lemma calculate_houses_raises:
  "asc_denominator (ramc_of t longitude) (obliquity_of t) latitude = 0 \<Longrightarrow>
   calculate_houses t latitude longitude system = Some (Inl ZeroDivisionError)"
  by (simp add: calculate_houses_def Let_def)

lemma calculate_houses_equal:
  "asc_denominator (ramc_of t longitude) (obliquity_of t) latitude \<noteq> 0 \<Longrightarrow>
   calculate_houses t latitude longitude ''equal'' =
     Some (Inr (mk_result (asc_longitude_of (ramc_of t longitude) (obliquity_of t) latitude)
                  (mc_longitude_of (ramc_of t longitude) (obliquity_of t))
                  (equal_houses (asc_longitude_of (ramc_of t longitude) (obliquity_of t) latitude))))"
  by (simp add: calculate_houses_def Let_def)


lemma calculate_houses_placidus:
  assumes "system \<noteq> ''equal''" "system \<noteq> ''koch''"
    and "asc_denominator (ramc_of t longitude) (obliquity_of t) latitude \<noteq> 0"
    and "placidus_solve (obliquity_of t) latitude (ramc_of t longitude)
           (asc_longitude_of (ramc_of t longitude) (obliquity_of t) latitude)
           (mc_longitude_of (ramc_of t longitude) (obliquity_of t)) = Some cs"
  shows "calculate_houses t latitude longitude system =
     Some (Inr (mk_result (asc_longitude_of (ramc_of t longitude) (obliquity_of t) latitude)
                  (mc_longitude_of (ramc_of t longitude) (obliquity_of t))
                  (placidus_houses (asc_longitude_of (ramc_of t longitude) (obliquity_of t) latitude)
                     (mc_longitude_of (ramc_of t longitude) (obliquity_of t)) cs)))"
  using assms by (simp add: calculate_houses_def Let_def)

lemma calculate_houses_Inr_nonzero:
  "calculate_houses t latitude longitude system = Some (Inr r) \<Longrightarrow>
   asc_denominator (ramc_of t longitude) (obliquity_of t) latitude \<noteq> 0"
  by (auto simp: calculate_houses_def Let_def split: if_splits)

lemma mk_result_sel:
  "houses (mk_result a m hs) = hs"
  "plongitude (ascendant (mk_result a m hs)) = a"
  "plongitude (mc (mk_result a m hs)) = m"
  "plongitude (descendant (mk_result a m hs)) = fmod_py (a + 180) 360"
  "plongitude (ic (mk_result a m hs)) = fmod_py (m + 180) 360"
  by (simp_all add: mk_result_def mk_point_def Let_def)

lemma mk_house_sel: "number (mk_house n lon) = n" "hlongitude (mk_house n lon) = lon"
  by (simp_all add: mk_house_def)

subsection \<open>Equal houses\<close>

text \<open>
  C3. For \<open>system = "equal"\<close>, whenever \<open>calculate_houses\<close> returns a result, its
  house \<open>i\<close> (the entry at index \<open>i - 1\<close>, which carries the number \<open>i\<close>) has the
  longitude \<open>(ASC + (i - 1) * 30) mod 360\<close>, for every \<open>i\<close> from 1 to 12, where \<open>ASC\<close> is
  the ascendant longitude of the same result.
\<close>

theorem equal_cusps_exact:
  assumes "calculate_houses t latitude longitude ''equal'' = Some (Inr r)"
    and "1 \<le> i" "i \<le> 12"
  shows "number (houses r ! (i - 1)) = i \<and>
         hlongitude (houses r ! (i - 1)) = fmod_py (plongitude (ascendant r) + real (i - 1) * 30) 360"
proof -
  have "asc_denominator (ramc_of t longitude) (obliquity_of t) latitude \<noteq> 0"
    using assms(1) by (rule calculate_houses_Inr_nonzero)
  from calculate_houses_equal [OF this] assms(1)
  have "r = mk_result (asc_longitude_of (ramc_of t longitude) (obliquity_of t) latitude)
                  (mc_longitude_of (ramc_of t longitude) (obliquity_of t))
                  (equal_houses (asc_longitude_of (ramc_of t longitude) (obliquity_of t) latitude))"
    by simp
  then have "houses r = equal_houses (plongitude (ascendant r))"
    by (simp add: mk_result_sel)
  then show ?thesis
    unfolding equal_houses_nth [OF assms(2,3)] mk_house_sel
    by (simp only: equal_houses_nth [OF assms(2,3)] mk_house_sel)
qed

lemma calculate_houses_ref_equal:
  "calculate_houses \<lparr>gast = 6, tt = 2451545\<rparr> 0 0 ''equal'' = Some (Inr (mk_result 180 90 (equal_houses 180)))"
proof -
  have d: "0 < asc_denominator 90 (10547681 / 450000) 0"
    by (simp only: asc_denominator_ref cos_obliquity_J2000_pos)
  then show ?thesis
    using calculate_houses_equal [of "\<lparr>gast = 6, tt = 2451545\<rparr>" 0 0]
    by (simp add: ramc_ref obliquity_J2000 asc_longitude_ref mc_longitude_ref)
qed

theorem equal_cusps_exact_witness:
  "calculate_houses \<lparr>gast = 6, tt = 2451545\<rparr> 0 0 ''equal'' = Some (Inr (mk_result 180 90 (equal_houses 180)))
   \<and> (1::nat) \<le> 3 \<and> (3::nat) \<le> 12
   \<and> number (houses (mk_result 180 90 (equal_houses 180)) ! (3 - 1)) = 3
   \<and> hlongitude (houses (mk_result 180 90 (equal_houses 180)) ! (3 - 1)) = 240"
proof -
  have "fmod_py (180 + real (3 - 1) * 30) 360 = 240" by (simp add: fmod_py_def)
  then show ?thesis
    using equal_cusps_exact [OF calculate_houses_ref_equal, of 3] calculate_houses_ref_equal
    by (simp add: mk_result_sel)
qed

subsection \<open>Koch houses\<close>

lemma koch_houses_longitudes:
  "map hlongitude (koch_houses asc_longitude mc_longitude) = koch_house_cusps asc_longitude mc_longitude"
  by (simp add: koch_houses_eq koch_house_cusps_def mk_house_sel upt_rec [of _ "numeral _"] upt_rec [of _ "Suc _"])

lemma koch_houses_numbers:
  "map number (koch_houses asc_longitude mc_longitude) = [1..<13]"
  by (simp add: koch_houses_eq koch_house_cusps_def mk_house_sel upt_rec [of _ "numeral _"] upt_rec [of _ "Suc _"])

lemma koch_houses_length: "length (koch_houses asc_longitude mc_longitude) = 12"
  using arg_cong [OF koch_houses_numbers, of length] by simp

subsection \<open>Koch houses on floats\<close>

lemma round_half_even_error: "\<bar>of_int (round_half_even m) - m\<bar> \<le> 1 / 2"
proof -
  have "of_int \<lfloor>m\<rfloor> \<le> m" "m < of_int \<lfloor>m\<rfloor> + 1" by linarith+
  then show ?thesis by (auto simp: round_half_even_def Let_def)
qed

lemma round_half_even_nonneg: "0 \<le> m \<Longrightarrow> 0 \<le> round_half_even m"
  by (auto simp: round_half_even_def Let_def)

lemma round_double_binade:
  assumes "2 ^ k \<le> x" "x < 2 ^ Suc k"
  shows "round_double x = of_int (round_half_even (x * 2 ^ 52 / 2 ^ k)) * 2 ^ k / 2 ^ 52"
proof -
  have "(0::real) < 2 ^ k" by simp
  then have x: "0 < x" using assms(1) by linarith
  have p0: "(2::real) powr real_of_int (int k) = 2 ^ k" by (simp add: powr_realpow)
  have "(2::real) powr real_of_int (int k + 1) = 2 powr (real k + 1)" by simp
  also have "\<dots> = 2 powr real k * 2 powr 1" by (rule powr_add)
  also have "\<dots> = 2 ^ Suc k" by (simp add: powr_realpow)
  finally have p1: "(2::real) powr real_of_int (int k + 1) = 2 ^ Suc k" .
  have "(2::real) powr real_of_int (int k) \<le> x \<and> x < 2 powr real_of_int (int k + 1)"
    unfolding p0 p1 using assms by blast
  then have e: "\<lfloor>log 2 x\<rfloor> = int k" using x by (simp add: floor_log_eq_powr_iff)
  have u: "(2::real) powr (real_of_int (int k) - 52) = 2 ^ k / 2 ^ 52"
    by (simp add: powr_diff powr_realpow)
  have "round_double x =
      2 powr (real_of_int (int k) - 52) * of_int (round_half_even (x / 2 powr (real_of_int (int k) - 52)))"
    using x e by (simp add: round_double_def Let_def)
  also have "\<dots> = (2 ^ k / 2 ^ 52) * of_int (round_half_even (x / (2 ^ k / 2 ^ 52)))"
    by (simp only: u)
  also have "x / (2 ^ k / 2 ^ 52) = x * 2 ^ 52 / 2 ^ k" by simp
  finally show ?thesis by simp
qed

lemma round_double_error:
  assumes "0 < x"
  shows "\<bar>round_double x - x\<bar> \<le> x / 2 ^ 53" "0 \<le> round_double x"
proof -
  define e where "e = \<lfloor>log 2 x\<rfloor>"
  define u where "u = (2::real) powr (of_int e - 52)"
  have u0: "0 < u" by (simp add: u_def)
  have "2 powr of_int e \<le> 2 powr log 2 x" unfolding e_def by (intro powr_mono) simp_all
  then have "2 powr of_int e \<le> x" using assms by simp
  moreover have "u = 2 powr of_int e / 2 ^ 52" by (simp add: u_def powr_diff)
  ultimately have ux: "u \<le> x / 2 ^ 52" by (simp add: field_simps)
  have r: "round_double x = u * of_int (round_half_even (x / u))"
    using assms by (simp add: round_double_def Let_def e_def u_def)
  have "round_double x - x = u * (of_int (round_half_even (x / u)) - x / u)"
    using u0 by (simp add: r field_simps)
  then have "\<bar>round_double x - x\<bar> = u * \<bar>of_int (round_half_even (x / u)) - x / u\<bar>"
    using u0 by (simp add: abs_mult)
  also have "\<dots> \<le> u * (1 / 2)" using u0 round_half_even_error by (intro mult_left_mono) simp_all
  also have "\<dots> \<le> x / 2 ^ 53" using ux by simp
  finally show "\<bar>round_double x - x\<bar> \<le> x / 2 ^ 53" .
  have "0 \<le> x / u" using assms u0 by simp
  then have "0 \<le> round_half_even (x / u)" by (rule round_half_even_nonneg)
  then show "0 \<le> round_double x" using u0 by (simp add: r)
qed

lemma float_mod_nonneg: "0 \<le> x \<Longrightarrow> float_mod x 360 = fmod_py x 360"
proof -
  assume x: "0 \<le> x"
  have "0 \<le> fmod_py x 360" using fmod_py_range by simp
  then show ?thesis using x by (simp add: float_mod_def fmod_py_def Let_def)
qed

lemma rounded_sum:
  assumes "0 \<le> x" "x \<le> 360" "0 < a" "a \<le> 360"
  shows "\<exists>d k. float_mod (float_add x a) 360 = x + a + d + 360 * of_int k \<and> \<bar>d\<bar> \<le> 1 / 2 ^ 43
           \<and> 0 \<le> float_mod (float_add x a) 360 \<and> float_mod (float_add x a) 360 \<le> 360"
proof -
  define y where "y = round_double (x + a)"
  have p: "0 < x + a" "x + a \<le> 720" using assms by simp_all
  have "\<bar>y - (x + a)\<bar> \<le> (x + a) / 2 ^ 53" unfolding y_def using p(1) by (rule round_double_error)
  also have "\<dots> \<le> 1 / 2 ^ 43" using p(2) by simp
  finally have d: "\<bar>y - (x + a)\<bar> \<le> 1 / 2 ^ 43" .
  have y0: "0 \<le> y" unfolding y_def using p(1) by (rule round_double_error)
  have m: "float_mod (float_add x a) 360 = fmod_py y 360"
    unfolding float_add_def y_def [symmetric] using y0 by (rule float_mod_nonneg)
  have "fmod_py y 360 = x + a + (y - (x + a)) + 360 * of_int (- \<lfloor>y / 360\<rfloor>)"
    by (simp add: fmod_py_def)
  then show ?thesis using d m fmod_py_range [of y] by (metis less_eq_real_def)
qed

lemma circ_diff_self: "circ_diff x x = 0"
  by (rule circ_diff_eq [of _ _ _ 0]) simp_all

lemma koch_pair_float:
  assumes "0 \<le> x" "x \<le> 360" "0 < a" "a \<le> 180"
  shows "\<bar>circ_diff (float_mod (float_add x (a + 180)) 360)
           (float_mod (float_add (float_mod (float_add x a) 360) 180) 360)\<bar> \<le> 1 / 10 ^ 9"
proof -
  define l where "l = float_mod (float_add x (a + 180)) 360"
  define c where "c = float_mod (float_add x a) 360"
  define r where "r = float_mod (float_add c 180) 360"
  obtain d1 k1 where l: "l = x + (a + 180) + d1 + 360 * of_int k1" "\<bar>d1\<bar> \<le> 1 / 2 ^ 43"
    unfolding l_def using rounded_sum [OF assms(1,2), of "a + 180"] assms(3,4) by auto
  obtain d2 k2 where c: "c = x + a + d2 + 360 * of_int k2" "\<bar>d2\<bar> \<le> 1 / 2 ^ 43" "0 \<le> c" "c \<le> 360"
    unfolding c_def using rounded_sum [OF assms(1,2), of a] assms(3,4) by auto
  obtain d3 k3 where r: "r = c + 180 + d3 + 360 * of_int k3" "\<bar>d3\<bar> \<le> 1 / 2 ^ 43"
    unfolding r_def using rounded_sum [OF c(3,4), of 180] by auto
  have "l - r = (d1 - d2 - d3) + 360 * of_int (k1 - k2 - k3)"
    using l(1) r(1) c(1) by simp
  moreover have "\<bar>d1 - d2 - d3\<bar> \<le> 1 / 10 ^ 9"
  proof -
    have "\<bar>d1 - d2 - d3\<bar> \<le> \<bar>d1\<bar> + \<bar>d2\<bar> + \<bar>d3\<bar>" by linarith
    also have "\<dots> \<le> 1 / 2 ^ 43 + 1 / 2 ^ 43 + 1 / 2 ^ 43" using l(2) c(2) r(2) by linarith
    also have "\<dots> \<le> 1 / 10 ^ 9" by simp
    finally show ?thesis .
  qed
  ultimately have "\<bar>circ_diff l r\<bar> \<le> 1 / 10 ^ 9" by (rule circ_diff_abs_le) simp
  then show ?thesis unfolding l_def r_def c_def .
qed

lemma koch_mc_pair_float:
  assumes "0 \<le> m" "m \<le> 360"
  shows "\<bar>circ_diff m (float_mod (float_add (float_mod (float_add m 180) 360) 180) 360)\<bar> \<le> 1 / 10 ^ 9"
proof -
  define c where "c = float_mod (float_add m 180) 360"
  define r where "r = float_mod (float_add c 180) 360"
  obtain d2 k2 where c: "c = m + 180 + d2 + 360 * of_int k2" "\<bar>d2\<bar> \<le> 1 / 2 ^ 43" "0 \<le> c" "c \<le> 360"
    unfolding c_def using rounded_sum [OF assms, of 180] by auto
  obtain d3 k3 where r: "r = c + 180 + d3 + 360 * of_int k3" "\<bar>d3\<bar> \<le> 1 / 2 ^ 43"
    unfolding r_def using rounded_sum [OF c(3,4), of 180] by auto
  have "m - r = (- d2 - d3) + 360 * of_int (- 1 - k2 - k3)"
    using r(1) c(1) by simp
  moreover have "\<bar>- d2 - d3\<bar> \<le> 1 / 10 ^ 9"
  proof -
    have "\<bar>- d2 - d3\<bar> \<le> \<bar>d2\<bar> + \<bar>d3\<bar>" by linarith
    also have "\<dots> \<le> 1 / 2 ^ 43 + 1 / 2 ^ 43" using c(2) r(2) by linarith
    also have "\<dots> \<le> 1 / 10 ^ 9" by simp
    finally show ?thesis .
  qed
  ultimately have "\<bar>circ_diff m r\<bar> \<le> 1 / 10 ^ 9" by (rule circ_diff_abs_le) simp
  then show ?thesis unfolding r_def c_def .
qed

lemma float_sum_371: "float_add (3888884683204371 / 17592186044416) 150 = 6527712589866771 / 17592186044416"
  unfolding float_add_def
  by (subst round_double_binade [of 8]) (simp_all add: round_half_even_def)

lemma float_sum_191: "float_add (194525613877011 / 17592186044416) 180 = 3361119101871891 / 17592186044416"
  unfolding float_add_def
  by (subst round_double_binade [of 7]) (simp_all add: round_half_even_def)

lemma float_sum_551: "float_add (3888884683204371 / 17592186044416) 330 = 2423576519465413 / 4398046511104"
  unfolding float_add_def
  by (subst round_double_binade [of 9]) (simp_all add: round_half_even_def)

lemma float_mod_371: "float_mod (6527712589866771 / 17592186044416) 360 = 194525613877011 / 17592186044416"
  by (simp add: float_mod_def)

lemma float_mod_191: "float_mod (3361119101871891 / 17592186044416) 360 = 3361119101871891 / 17592186044416"
  by (simp add: float_mod_def)

lemma float_mod_551: "float_mod (2423576519465413 / 4398046511104) 360 = 840279775467973 / 4398046511104"
  by (simp add: float_mod_def)

text \<open>
  The claim C10 (for \<open>system = "koch"\<close>, \<open>cusp (i + 6) = (cusp i + 180) mod 360\<close>
  exactly, for every \<open>i\<close> from 1 to 6) fails on the floats of the program: for
  \<open>asc_longitude = 221.05750094876674\<close> (the double \<open>3888884683204371 / 2^44\<close>) cusp 12
  is \<open>191.0575009487668\<close>, the sum \<open>asc_longitude + 330\<close> being rounded at a spacing of
  \<open>2^-43\<close>, and \<open>(cusp 6 + 180) % 360\<close> is \<open>191.05750094876674\<close>.
\<close>

theorem koch_opposite_cusps_inexact:
  "koch_house_cusps_float (3888884683204371 / 17592186044416) 100 ! 11 = 840279775467973 / 4398046511104
   \<and> float_mod (float_add (koch_house_cusps_float (3888884683204371 / 17592186044416) 100 ! 5) 180) 360
       = 3361119101871891 / 17592186044416
   \<and> koch_house_cusps_float (3888884683204371 / 17592186044416) 100 ! 11
       \<noteq> float_mod (float_add (koch_house_cusps_float (3888884683204371 / 17592186044416) 100 ! 5) 180) 360"
  by (simp add: koch_house_cusps_float_def float_sum_371 float_sum_191 float_sum_551
      float_mod_371 float_mod_191 float_mod_551)

text \<open>
  C10, as amended. For \<open>system = "koch"\<close> and every \<open>i\<close> from 1 to 6, the cusp
  \<open>i + 6\<close> and the float \<open>(cusp i + 180) % 360\<close> are equal up to rounding and a whole
  turn: their circular difference is at most \<open>1e-9\<close> degrees, for all
  \<open>asc_longitude\<close> and \<open>mc_longitude\<close> in \<open>[0, 360]\<close>. (For \<open>i = 1\<close> the two are the
  same float expression.)
\<close>

theorem koch_opposite_cusps_within_rounding:
  assumes "0 \<le> asc_longitude" "asc_longitude \<le> 360" "0 \<le> mc_longitude" "mc_longitude \<le> 360"
    and "1 \<le> i" "i \<le> 6"
  shows "\<bar>circ_diff (koch_house_cusps_float asc_longitude mc_longitude ! (i + 6 - 1))
           (float_mod (float_add (koch_house_cusps_float asc_longitude mc_longitude ! (i - 1)) 180) 360)\<bar>
         \<le> 1 / 10 ^ 9"
proof -
  note p = koch_pair_float [OF assms(1,2)]
  from assms(5,6) consider "i = 1" | "i = 2" | "i = 3" | "i = 4" | "i = 5" | "i = 6" by linarith
  then show ?thesis
  proof cases
    case 1 then show ?thesis by (simp add: koch_house_cusps_float_def circ_diff_self)
  next
    case 2 then show ?thesis using p [of 30] by (simp add: koch_house_cusps_float_def)
  next
    case 3 then show ?thesis using p [of 60] by (simp add: koch_house_cusps_float_def)
  next
    case 4 then show ?thesis using koch_mc_pair_float [OF assms(3,4)] by (simp add: koch_house_cusps_float_def)
  next
    case 5 then show ?thesis using p [of 120] by (simp add: koch_house_cusps_float_def)
  next
    case 6 then show ?thesis using p [of 150] by (simp add: koch_house_cusps_float_def)
  qed
qed


theorem koch_opposite_cusps_within_rounding_witness:
  "(0::real) \<le> 3888884683204371 / 17592186044416
   \<and> (3888884683204371 / 17592186044416 :: real) \<le> 360
   \<and> (0::real) \<le> 100 \<and> (100::real) \<le> 360 \<and> (1::nat) \<le> 6 \<and> (6::nat) \<le> 6
   \<and> \<bar>circ_diff (koch_house_cusps_float (3888884683204371 / 17592186044416) 100 ! (6 + 6 - 1))
           (float_mod (float_add (koch_house_cusps_float (3888884683204371 / 17592186044416) 100 ! (6 - 1)) 180) 360)\<bar>
         \<le> 1 / 10 ^ 9"
  using koch_opposite_cusps_within_rounding [of "3888884683204371 / 17592186044416" 100 6] by simp

subsection \<open>Placidus houses\<close>

lemma calculate_houses_else:
  assumes "system \<noteq> ''equal''" "system \<noteq> ''koch''"
  shows "calculate_houses t latitude longitude system = calculate_houses t latitude longitude ''placidus''"
  using assms by (simp add: calculate_houses_def Let_def)

lemma calculate_houses_placidus_returns:
  assumes "system \<noteq> ''equal''" "system \<noteq> ''koch''"
    and "asc_denominator (ramc_of t longitude) (obliquity_of t) latitude \<noteq> 0"
  shows "\<exists>cs. placidus_solve (obliquity_of t) latitude (ramc_of t longitude)
           (asc_longitude_of (ramc_of t longitude) (obliquity_of t) latitude)
           (mc_longitude_of (ramc_of t longitude) (obliquity_of t)) = Some cs \<and>
     calculate_houses t latitude longitude system =
     Some (Inr (mk_result (asc_longitude_of (ramc_of t longitude) (obliquity_of t) latitude)
                  (mc_longitude_of (ramc_of t longitude) (obliquity_of t))
                  (placidus_houses (asc_longitude_of (ramc_of t longitude) (obliquity_of t) latitude)
                     (mc_longitude_of (ramc_of t longitude) (obliquity_of t)) cs)))"
  using placidus_solve_returns calculate_houses_placidus [OF assms] by blast

lemma asc_denominator_ref_pos: "asc_denominator (ramc_of \<lparr>gast = 6, tt = 2451545\<rparr> 0) (obliquity_of \<lparr>gast = 6, tt = 2451545\<rparr>) 0 \<noteq> 0"
  using cos_obliquity_J2000_pos by (simp add: ramc_ref obliquity_J2000 asc_denominator_ref)

lemma placidus_cusp:
  "1 \<le> n \<Longrightarrow> n \<le> 12 \<Longrightarrow>
   cusp (mk_result a m (placidus_houses a m cs)) n = number_to_long a m cs n"
  by (simp only: cusp_def mk_result_sel placidus_houses_nth mk_house_sel)






text \<open>
  C1. For every input of the Placidus branch at which the ASC denominator is not zero,
  \<open>calculate_houses\<close> returns a result with \<open>cusp 5 = (cusp 11 + 180) mod 360\<close>,
  \<open>cusp 6 = (cusp 12 + 180) mod 360\<close>, \<open>cusp 8 = (cusp 2 + 180) mod 360\<close> and
  \<open>cusp 9 = (cusp 3 + 180) mod 360\<close>, whatever the solver found: when a solved cusp is
  missing, both cusps of the pair take their Equal-house values, which are opposite too.
\<close>

theorem placidus_opposite_cusps:
  assumes "system \<noteq> ''equal''" "system \<noteq> ''koch''"
    and "asc_denominator (ramc_of t longitude) (obliquity_of t) latitude \<noteq> 0"
  shows "\<exists>r. calculate_houses t latitude longitude system = Some (Inr r) \<and>
           cusp r 5 = fmod_py (cusp r 11 + 180) 360 \<and>
           cusp r 6 = fmod_py (cusp r 12 + 180) 360 \<and>
           cusp r 8 = fmod_py (cusp r 2 + 180) 360 \<and>
           cusp r 9 = fmod_py (cusp r 3 + 180) 360"
proof -
  define a where "a = asc_longitude_of (ramc_of t longitude) (obliquity_of t) latitude"
  define m where "m = mc_longitude_of (ramc_of t longitude) (obliquity_of t)"
  from calculate_houses_placidus_returns [OF assms]
  obtain cs where r: "calculate_houses t latitude longitude system =
      Some (Inr (mk_result a m (placidus_houses a m cs)))"
    unfolding a_def m_def by blast
  obtain c11 c12 c3 c2 where cs: "cs = (c11, c12, c3, c2)" by (cases cs) auto
  have "cusp (mk_result a m (placidus_houses a m cs)) 5 =
          fmod_py (cusp (mk_result a m (placidus_houses a m cs)) 11 + 180) 360"
       "cusp (mk_result a m (placidus_houses a m cs)) 6 =
          fmod_py (cusp (mk_result a m (placidus_houses a m cs)) 12 + 180) 360"
       "cusp (mk_result a m (placidus_houses a m cs)) 8 =
          fmod_py (cusp (mk_result a m (placidus_houses a m cs)) 2 + 180) 360"
       "cusp (mk_result a m (placidus_houses a m cs)) 9 =
          fmod_py (cusp (mk_result a m (placidus_houses a m cs)) 3 + 180) 360"
    using number_to_long_opposite [of a m c11 c12 c3 c2]
    by (simp_all add: placidus_cusp cs)
  with r show ?thesis by blast
qed

theorem placidus_opposite_cusps_witness:
  "''placidus'' \<noteq> ''equal'' \<and> ''placidus'' \<noteq> ''koch'' \<and>
   asc_denominator (ramc_of \<lparr>gast = 6, tt = 2451545\<rparr> 0) (obliquity_of \<lparr>gast = 6, tt = 2451545\<rparr>) 0 \<noteq> 0 \<and>
   (\<exists>r. calculate_houses \<lparr>gast = 6, tt = 2451545\<rparr> 0 0 ''placidus'' = Some (Inr r) \<and>
           cusp r 5 = fmod_py (cusp r 11 + 180) 360 \<and>
           cusp r 6 = fmod_py (cusp r 12 + 180) 360 \<and>
           cusp r 8 = fmod_py (cusp r 2 + 180) 360 \<and>
           cusp r 9 = fmod_py (cusp r 3 + 180) 360)"
proof -
  have s: "''placidus'' \<noteq> ''equal''" "''placidus'' \<noteq> ''koch''" by simp_all
  from placidus_opposite_cusps [OF s asc_denominator_ref_pos] s asc_denominator_ref_pos
  show ?thesis by blast
qed

subsection \<open>Bounds on the trigonometric functions\<close>

lemma sin_lower: "0 \<le> (x::real) \<Longrightarrow> x - x ^ 3 / 6 \<le> sin x"
proof -
  assume x: "0 \<le> x"
  have "(\<Sum>m<3. sin_coeff m * x ^ m) = x"
    by (simp add: sin_coeff_def numeral_3_eq_3)
  then have "\<bar>sin x - x\<bar> \<le> inverse (fact 3) * \<bar>x\<bar> ^ 3"
    using Maclaurin_sin_bound [of x 3] by simp
  moreover have "inverse (fact 3) * \<bar>x\<bar> ^ 3 = x ^ 3 / 6" using x by (simp add: fact_numeral)
  ultimately show ?thesis by linarith
qed

lemma radians_degrees: "radians (degrees x) = x"
  by (simp add: radians_def degrees_def)

lemma tan_py_eq: "cos x \<noteq> 0 \<Longrightarrow> tan_py x = tan x"
  by (simp add: tan_py_def)

lemma rising_hour_angle_circumpolar:
  "1 < tan_py (radians phi_deg) * tan_py (radians delta_deg) \<Longrightarrow> rising_hour_angle delta_deg phi_deg = None"
  by (simp add: rising_hour_angle_def Let_def)

lemma declination_of: "snd (ra_dec_from_lambda lambda_deg eps_deg) = degrees (arcsin (sin (radians eps_deg) * sin (radians lambda_deg)))"
  by (simp add: ra_dec_from_lambda_def Let_def)

lemma F_circumpolar:
  "1 < tan_py (radians latitude) * tan_py (arcsin (sin (radians eps_deg) * sin (radians lam_deg))) \<Longrightarrow>
   F eps_deg latitude base n_frac sign_factor use_descension lam_deg = None"
proof -
  assume a: "1 < tan_py (radians latitude) * tan_py (arcsin (sin (radians eps_deg) * sin (radians lam_deg)))"
  obtain alpha delta where ad: "ra_dec_from_lambda lam_deg eps_deg = (alpha, delta)"
    by (cases "ra_dec_from_lambda lam_deg eps_deg")
  then have "delta = degrees (arcsin (sin (radians eps_deg) * sin (radians lam_deg)))"
    using declination_of [of lam_deg eps_deg] by simp
  then have "rising_hour_angle delta latitude = None"
    using a by (intro rising_hour_angle_circumpolar) (simp add: radians_degrees)
  then show ?thesis by (simp add: F_def ad)
qed

lemma tan_ge_sin: "0 \<le> y \<Longrightarrow> y < pi / 2 \<Longrightarrow> sin y \<le> tan y"
proof -
  assume y: "0 \<le> y" "y < pi / 2"
  have c: "0 < cos y" "cos y \<le> 1" using y by (simp_all add: cos_gt_zero_pi)
  have s: "0 \<le> sin y" using y by (intro sin_ge_zero) (use pi_gt_zero in linarith)+
  have "sin y * cos y \<le> sin y * 1" using c s by (intro mult_left_mono) auto
  then have "sin y \<le> sin y / cos y" using c by (simp add: field_simps)
  then show ?thesis by (simp add: tan_def)
qed


subsection \<open>A polar input: latitude 89.9 at RAMC 90\<close>

lemma pi_ge_three: "3 \<le> pi"
proof -
  have "sin (pi / 6) \<le> pi / 6" by (rule sin_x_le_x) simp
  then show ?thesis by (simp add: sin_30)
qed

lemma cos_lower: "1 - x ^ 2 / 2 \<le> cos (x::real)"
proof -
  have "\<bar>sin (x / 2)\<bar> \<le> \<bar>x / 2\<bar>" by (rule abs_sin_x_le_abs_x)
  then have "\<bar>sin (x / 2)\<bar> ^ 2 \<le> \<bar>x / 2\<bar> ^ 2" by (intro power_mono) simp_all
  then have "sin (x / 2) ^ 2 \<le> x ^ 2 / 4" by (simp add: power_divide)
  moreover have "cos x = 1 - 2 * sin (x / 2) ^ 2" using cos_double_sin [of "x / 2"] by simp
  ultimately show ?thesis by linarith
qed

lemma tan_polar: "449 \<le> tan (radians (899 / 10))" "tan (radians (899 / 10)) \<le> 601"
proof -
  define x where "x = pi / 1800"
  have x: "0 < x" "x < pi / 2" "x \<le> 1 / 450" "1 / 600 \<le> x"
    using pi_gt_zero pi_less_4 pi_ge_three by (simp_all add: x_def)
  have r: "radians (899 / 10) = pi / 2 - x" by (simp add: radians_def x_def)
  have "x ^ 2 \<le> (1 / 450) ^ 2" using x by (intro power_mono) simp_all
  then have "x ^ 2 \<le> 1 / 202500" by (simp add: power_divide)
  then have c: "404999 / 405000 \<le> cos x" using cos_lower [of x] by linarith
  have c1: "cos x \<le> 1" by simp
  have s: "sin x \<le> x" using x by (intro sin_x_le_x) simp
  have s0: "0 < sin x" using x by (intro sin_gt_zero2)
  have t0: "0 < tan x" using x by (intro tan_gt_zero)
  have "sin x \<le> 1 / 450" using s x by linarith
  also have "\<dots> \<le> 1 / 449 * cos x" using c by simp
  finally have "tan x \<le> 1 / 449" using c by (simp add: tan_def field_simps)
  then have "449 * tan x \<le> 1" by simp
  then have "449 \<le> inverse (tan x)" using t0 by (simp add: field_simps)
  then show "449 \<le> tan (radians (899 / 10))" unfolding r tan_cot by simp
  have "sin (1 / 600) \<le> sin x" using x pi_ge_three by (intro sin_monotone_2pi_le) simp_all
  moreover have "(1::real) / 600 - (1 / 600) ^ 3 / 6 \<le> sin (1 / 600)" by (rule sin_lower) simp
  ultimately have "1 / 601 \<le> sin x" by (simp add: power3_eq_cube)
  then have "cos x \<le> 601 * sin x" using c1 by linarith
  then have "inverse (tan x) \<le> 601" using s0 by (simp add: tan_def field_simps)
  then show "tan (radians (899 / 10)) \<le> 601" unfolding r tan_cot by simp
qed

lemma tan_py_polar: "tan_py (radians (899 / 10)) = tan (radians (899 / 10))"
proof -
  have "0 < cos (radians (899 / 10))" by (rule cos_radians_pos) simp_all
  then show ?thesis by (simp add: tan_py_eq)
qed

lemma tan_py_arcsin: "- 1 < sd \<Longrightarrow> sd < 1 \<Longrightarrow> tan_py (arcsin sd) = tan (arcsin sd)"
  by (simp add: tan_py_eq cos_arcsin_nonzero)

lemma obliquity_radians: "39 / 100 \<le> radians (10547681 / 450000)" "radians (10547681 / 450000) < pi / 2"
proof -
  have "radians (10547681 / 450000) = (10547681 / 81000000) * pi" by (simp add: radians_def)
  moreover have "(10547681 / 81000000) * 3 \<le> (10547681 / 81000000) * pi"
    using pi_ge_three by (intro mult_left_mono) simp_all
  ultimately show "39 / 100 \<le> radians (10547681 / 450000)" by simp
  show "radians (10547681 / 450000) < pi / 2" by (rule radians_bounds) simp_all
qed

lemma sin_obliquity: "38 / 100 \<le> sin (radians (10547681 / 450000))" "sin (radians (10547681 / 450000)) < 1"
proof -
  have "(39::real) / 100 - (39 / 100) ^ 3 / 6 \<le> sin (39 / 100)" by (rule sin_lower) simp
  moreover have "sin (39 / 100) \<le> sin (radians (10547681 / 450000))"
    using obliquity_radians pi_gt_zero by (intro sin_monotone_2pi_le) simp_all
  ultimately show "38 / 100 \<le> sin (radians (10547681 / 450000))" by (simp add: power3_eq_cube)
  have "sin (radians (10547681 / 450000)) < sin (pi / 2)"
    using obliquity_radians pi_gt_zero by (intro sin_monotone_2pi) simp_all
  then show "sin (radians (10547681 / 450000)) < 1" by simp
qed

lemma sin_window:
  assumes "181 / 2 \<le> lam" "lam \<le> 359 / 2"
  shows "1 / 121 \<le> sin (radians lam)"
proof -
  define y where "y = pi - radians lam"
  have p: "0 < pi / 180" by simp
  have "lam * (pi / 180) \<le> 359 / 2 * (pi / 180)" using assms(2) p by (intro mult_right_mono) simp_all
  then have y1: "pi / 360 \<le> y" by (simp add: y_def radians_def)
  have "181 / 2 * (pi / 180) \<le> lam * (pi / 180)" using assms(1) p by (intro mult_right_mono) simp_all
  then have y2: "y \<le> pi / 2" by (simp add: y_def radians_def)
  have "1 / 120 \<le> pi / 360" using pi_ge_three by simp
  then have "sin (1 / 120) \<le> sin y" using y1 y2 pi_gt_zero by (intro sin_monotone_2pi_le) simp_all
  moreover have "(1::real) / 120 - (1 / 120) ^ 3 / 6 \<le> sin (1 / 120)" by (rule sin_lower) simp
  moreover have "sin y = sin (radians lam)" by (simp add: y_def)
  ultimately show ?thesis by (simp add: power3_eq_cube)
qed

lemma polar_circumpolar:
  assumes "181 / 2 \<le> lam" "lam \<le> 359 / 2"
  shows "F (10547681 / 450000) (899 / 10) base n_frac sign_factor use_descension lam = None"
proof (rule F_circumpolar)
  define sd where "sd = sin (radians (10547681 / 450000)) * sin (radians lam)"
  have l: "1 / 121 \<le> sin (radians lam)" using assms by (rule sin_window)
  have l1: "sin (radians lam) \<le> 1" by simp
  have "38 / 100 * (1 / 121) \<le> sd"
    unfolding sd_def using sin_obliquity(1) l by (intro mult_mono) simp_all
  then have sd0: "38 / 12100 \<le> sd" by simp
  have "sd \<le> sin (radians (10547681 / 450000)) * 1"
    unfolding sd_def using sin_obliquity(1) l1 by (intro mult_left_mono) simp_all
  then have sd1: "sd < 1" using sin_obliquity(2) by simp
  have a0: "0 \<le> arcsin sd" using sd0 sd1 by (intro arcsin_nonneg) simp
  have a1: "arcsin sd < pi / 2" using sd0 sd1 arcsin_lt_bounded [of sd] by simp
  have "sin (arcsin sd) \<le> tan (arcsin sd)" using a0 a1 by (rule tan_ge_sin)
  then have t: "38 / 12100 \<le> tan (arcsin sd)" using sd0 sd1 by simp
  have "449 * (38 / 12100) \<le> tan (radians (899 / 10)) * tan (arcsin sd)"
    using tan_polar(1) t by (intro mult_mono) simp_all
  moreover have "tan_py (arcsin sd) = tan (arcsin sd)" using sd0 sd1 by (intro tan_py_arcsin) simp_all
  ultimately show "1 < tan_py (radians (899 / 10)) * tan_py (arcsin (sin (radians (10547681 / 450000)) * sin (radians lam)))"
    unfolding sd_def tan_py_polar by simp
qed

lemma circ_diff_far:
  assumes "0 < step" "step \<le> d" "d < 360 - step"
  shows "\<not> \<bar>circ_diff x (x + d)\<bar> \<le> step * 0.5"
proof (cases "d \<le> 180")
  case True
  have "x - (x + d) = - d + 360 * of_int 0" by simp
  then have "circ_diff x (x + d) = - d" using True assms by (intro circ_diff_eq [of _ _ _ 0]) simp_all
  then show ?thesis using assms by simp
next
  case False
  have "x - (x + d) = (360 - d) + 360 * of_int (- 1)" by simp
  then have "circ_diff x (x + d) = 360 - d" using False assms by (intro circ_diff_eq [of _ _ _ "- 1"]) simp_all
  then show ?thesis using assms by simp
qed

lemma iter_window_loop_progression:
  assumes "0 < step"
  shows "0 \<le> angle \<Longrightarrow> angle + real (Suc n) * step < 360 \<Longrightarrow>
    iter_window_loop angle (angle + real (Suc n) * step) step =
      Some (map (\<lambda>k. angle + real k * step) [1..<Suc (Suc n)])"
proof (induction n arbitrary: angle)
  case 0
  have a: "normalize_deg (angle + step) = angle + step"
    using 0 assms by (simp add: normalize_deg_fmod fmod_py_id)
  have "circ_diff (angle + step) (angle + step) = 0"
    by (rule circ_diff_eq [of _ _ _ 0]) simp_all
  then show ?case using assms
    by (subst iter_window_loop.simps) (simp add: a Let_def)
next
  case (Suc n)
  define angle' where "angle' = angle + step"
  have e: "angle + real (Suc (Suc n)) * step = angle' + real (Suc n) * step"
    by (simp add: angle'_def algebra_simps)
  have pos: "0 \<le> real n * step" using assms by simp
  have pos': "0 \<le> real (Suc n) * step" using assms by simp
  have lo: "0 \<le> angle'" using Suc.prems(1) assms by (simp add: angle'_def)
  have "angle' + real (Suc n) * step < 360" using Suc.prems(2) e by simp
  then have up: "angle' < 360" using pos' by linarith
  have a: "normalize_deg (angle + step) = angle'"
    using lo up unfolding angle'_def by (intro trans [OF normalize_deg_fmod fmod_py_id])
  have far: "\<not> \<bar>circ_diff angle' (angle' + real (Suc n) * step)\<bar> \<le> step * 0.5"
  proof (rule circ_diff_far [OF assms])
    show "step \<le> real (Suc n) * step" using pos by (simp add: algebra_simps)
    show "real (Suc n) * step < 360 - step" using Suc.prems by (simp add: algebra_simps)
  qed
  have ih: "iter_window_loop angle' (angle' + real (Suc n) * step) step =
      Some (map (\<lambda>k. angle' + real k * step) [1..<Suc (Suc n)])"
  proof (rule Suc.IH)
    show "0 \<le> angle'" using Suc.prems(1) assms by (simp add: angle'_def)
    show "angle' + real (Suc n) * step < 360" using Suc.prems(2) e by simp
  qed
  have m: "map (\<lambda>k. angle' + real k * step) [Suc 0..<Suc (Suc n)] =
           map (\<lambda>k. angle + real k * step) [Suc (Suc 0)..<Suc (Suc (Suc n))]"
  proof -
    have "[Suc (Suc 0)..<Suc (Suc (Suc n))] = map Suc [Suc 0..<Suc (Suc n)]"
      by (simp only: map_Suc_upt)
    then show ?thesis by (simp add: angle'_def algebra_simps comp_def del: upt_Suc)
  qed
  have u: "[Suc 0..<Suc (Suc (Suc n))] = Suc 0 # [Suc (Suc 0)..<Suc (Suc (Suc n))]"
    by (rule upt_conv_Cons) simp
  show ?case
    unfolding e
    apply (subst iter_window_loop.simps)
    apply (simp only: a Let_def far if_False ih One_nat_def m u)
    apply (simp add: angle'_def)
    done
qed

lemma scan_samples_all_none:
  "\<forall>x \<in> set (butlast xs). Fn x = None \<Longrightarrow> scan_samples Fn xs prev_lam None = None"
proof (induction xs arbitrary: prev_lam)
  case Nil
  then show ?case by simp
next
  case (Cons x xs)
  show ?case
  proof (cases "xs = []")
    case True
    then show ?thesis by (simp add: Let_def)
  next
    case False
    then have "Fn x = None" "\<forall>y \<in> set (butlast xs). Fn y = None" using Cons.prems by simp_all
    then show ?thesis using Cons.IH by (simp add: Let_def)
  qed
qed

lemma iter_window_polar:
  "\<exists>lams. iter_window 90 180 0.5 = Some lams \<and>
     (\<forall>x \<in> set (butlast lams). 181 / 2 \<le> x \<and> x \<le> 359 / 2)"
proof -
  have n: "normalize_deg (181 / 2) = 181 / 2" "normalize_deg 180 = 180"
    by (simp_all add: normalize_deg_fmod fmod_py_def)
  have "iter_window_loop (181 / 2) (181 / 2 + real (Suc 178) * (1 / 2)) (1 / 2) =
      Some (map (\<lambda>k. 181 / 2 + real k * (1 / 2)) [1..<Suc (Suc 178)])"
    by (rule iter_window_loop_progression) simp_all
  then have l: "iter_window_loop (181 / 2) 180 (1 / 2) =
      Some (map (\<lambda>k. 181 / 2 + real k * (1 / 2)) [1..<180])" by simp
  have w: "iter_window 90 180 0.5 = Some (181 / 2 # map (\<lambda>k. 181 / 2 + real k * (1 / 2)) [1..<180])"
    using l by (simp add: iter_window_def Let_def n)
  have "[Suc 0..<180] = [Suc 0..<Suc 178] @ [179]"
    using upt_Suc_append [of "Suc 0" 179] by simp
  then have "181 / 2 # map (\<lambda>k. 181 / 2 + real k * (1 / 2)) [1..<180] =
      (181 / 2 # map (\<lambda>k. 181 / 2 + real k * (1 / 2)) [1..<179]) @ [181 / 2 + real 179 * (1 / 2)]"
    by (simp del: upt_Suc)
  then have b: "butlast (181 / 2 # map (\<lambda>k. 181 / 2 + real k * (1 / 2)) [1..<180]) =
           181 / 2 # map (\<lambda>k. 181 / 2 + real k * (1 / 2)) [1..<179]"
    by (simp only: butlast_snoc)
  have "\<forall>x \<in> set (181 / 2 # map (\<lambda>k. 181 / 2 + real k * (1 / 2)) [1..<179]).
           181 / 2 \<le> x \<and> x \<le> (359::real) / 2"
    by (auto simp del: upt_Suc)
  then show ?thesis unfolding w b [symmetric] by blast
qed

lemma solve_lambda_by_OA_polar:
  "solve_lambda_by_OA (10547681 / 450000) (899 / 10) n_frac base_ramc sign_factor 90 180 0.5 use_descension
     = Some None"
proof -
  obtain lams where l: "iter_window 90 180 0.5 = Some lams"
    "\<forall>x \<in> set (butlast lams). 181 / 2 \<le> x \<and> x \<le> 359 / 2"
    using iter_window_polar by blast
  have "\<forall>x \<in> set (butlast lams).
      F (10547681 / 450000) (899 / 10) (normalize_deg base_ramc) n_frac sign_factor use_descension x = None"
    using l(2) polar_circumpolar by blast
  then have "scan_samples (F (10547681 / 450000) (899 / 10) (normalize_deg base_ramc) n_frac sign_factor use_descension)
      lams None None = None" by (rule scan_samples_all_none)
  then show ?thesis using l(1) by (simp add: solve_lambda_by_OA_def Let_def)
qed

lemma asc_denominator_polar: "0 < asc_denominator 90 (10547681 / 450000) (899 / 10)"
proof -
  have "0 < tan (radians (899 / 10))" using tan_polar(1) by linarith
  moreover have "0 < sin (radians (10547681 / 450000))" using sin_obliquity(1) by linarith
  ultimately have "0 < tan (radians (899 / 10)) * sin (radians (10547681 / 450000))" by simp
  then show ?thesis
    using cos_obliquity_J2000_pos by (simp add: asc_denominator_def radians_90 tan_py_polar)
qed

lemma placidus_solve_first_two:
  assumes "placidus_solve eps lat ramc a m = Some (c11, c12, c3, c2)"
  shows "solve_lambda_by_OA eps lat (2 / 3) ramc 1 (normalize_deg (normalize_deg m))
           (normalize_deg (normalize_deg a)) 0.5 False = Some c11"
    and "solve_lambda_by_OA eps lat (1 / 3) ramc 1
           (case c11 of Some v \<Rightarrow> v | None \<Rightarrow> normalize_deg (normalize_deg m))
           (normalize_deg (normalize_deg a)) 0.5 False = Some c12"
  using assms
  by (auto simp: placidus_solve_def Let_def win_ccw_def split: bind_splits cong: option.case_cong)

lemma placidus_solve_polar:
  "\<exists>c3 c2. placidus_solve (10547681 / 450000) (899 / 10) 90 180 90 = Some (None, None, c3, c2)"
proof -
  have n: "normalize_deg (normalize_deg 180) = 180" "normalize_deg (normalize_deg 90) = 90"
    by (simp_all add: normalize_deg_fmod fmod_py_def)
  obtain c11 c12 c3 c2 where
    p: "placidus_solve (10547681 / 450000) (899 / 10) 90 180 90 = Some (c11, c12, c3, c2)"
    using placidus_solve_returns [of "10547681 / 450000" "899 / 10" 90 180 90]
    by (metis prod_cases4)
  have "solve_lambda_by_OA (10547681 / 450000) (899 / 10) (2 / 3) 90 1 90 180 0.5 False = Some c11"
    using placidus_solve_first_two(1) [OF p] by (simp only: n)
  then have c11: "c11 = None" by (simp only: solve_lambda_by_OA_polar option.inject)
  have "solve_lambda_by_OA (10547681 / 450000) (899 / 10) (1 / 3) 90 1 90 180 0.5 False = Some c12"
    using placidus_solve_first_two(2) [OF p] by (simp only: n c11 option.case)
  then have c12: "c12 = None" by (simp only: solve_lambda_by_OA_polar option.inject)
  show ?thesis using p c11 c12 by blast
qed

lemma calculate_houses_polar:
  "\<exists>c3 c2. placidus_solve (10547681 / 450000) (899 / 10) 90 180 90 = Some (None, None, c3, c2) \<and>
     calculate_houses \<lparr>gast = 6, tt = 2451545\<rparr> (899 / 10) 0 ''placidus'' =
       Some (Inr (mk_result 180 90 (placidus_houses 180 90 (None, None, c3, c2))))"
proof -
  obtain c3 c2 where p: "placidus_solve (10547681 / 450000) (899 / 10) 90 180 90 = Some (None, None, c3, c2)"
    using placidus_solve_polar by blast
  have a: "asc_longitude_of 90 (10547681 / 450000) (899 / 10) = 180"
    using asc_denominator_polar by (rule asc_longitude_ref)
  have "calculate_houses \<lparr>gast = 6, tt = 2451545\<rparr> (899 / 10) 0 ''placidus'' =
       Some (Inr (mk_result 180 90 (placidus_houses 180 90 (None, None, c3, c2))))"
    using calculate_houses_placidus [of "''placidus''" "\<lparr>gast = 6, tt = 2451545\<rparr>" 0 "899 / 10" "(None, None, c3, c2)"]
      asc_denominator_polar p
    by (simp add: ramc_ref obliquity_J2000 a mc_longitude_ref)
  with p show ?thesis by blast
qed

lemma try_signs_keeps: "best \<noteq> None \<Longrightarrow> try_signs Fv angle ss best \<noteq> None"
  by (induction ss arbitrary: best) (simp_all add: Let_def split: option.splits del: not_None_eq)

lemma try_signs_finds: "Fv angle s = Some v \<Longrightarrow> try_signs Fv angle (s # ss) best \<noteq> None"
  by (cases best) (simp_all add: Let_def try_signs_keeps del: not_None_eq)

lemma guard_cap_value: "guard_cap = 7205"
  by (simp add: guard_cap_def sample_step_def)

lemma dense_loop_reach:
  "0 \<le> a \<Longrightarrow> a + real (Suc n) * sample_step < 360 \<Longrightarrow> g + Suc n \<le> guard_cap \<Longrightarrow>
   \<exists>best'. dense_loop Fv (a + real (Suc n) * sample_step) best a g =
     (try_signs Fv (a + real n * sample_step) sign_factor_opts best',
      a + real (Suc n) * sample_step, g + Suc n)"
proof (induction n arbitrary: a g best)
  case 0
  have s: "0 < sample_step" by (simp add: sample_step_def)
  have a: "normalize_deg (a + sample_step) = a + sample_step"
    using 0 s by (simp add: normalize_deg_fmod fmod_py_id)
  have "circ_diff (a + sample_step) (a + sample_step) = 0"
    by (rule circ_diff_eq [of _ _ _ 0]) simp_all
  then have "dense_loop Fv (a + sample_step) best a g =
      (try_signs Fv a sign_factor_opts best, a + sample_step, g + 1)"
    using s by (subst dense_loop.simps) (simp add: a Let_def)
  then show ?case by auto
next
  case (Suc n)
  have s: "0 < sample_step" by (simp add: sample_step_def)
  define a' where "a' = a + sample_step"
  have pos: "0 \<le> real n * sample_step" using s by simp
  have e: "a + real (Suc (Suc n)) * sample_step = a' + real (Suc n) * sample_step"
    by (simp add: a'_def algebra_simps)
  have a0: "0 \<le> a'" using Suc.prems(1) s by (simp add: a'_def)
  have a1: "a' + real (Suc n) * sample_step < 360" using Suc.prems(2) e by simp
  have "0 \<le> real (Suc n) * sample_step" using s by simp
  then have "a' < 360" using a1 by linarith
  then have a: "normalize_deg (a + sample_step) = a'"
    using a0 unfolding a'_def by (intro trans [OF normalize_deg_fmod fmod_py_id])
  have far: "\<not> \<bar>circ_diff a' (a' + real (Suc n) * sample_step)\<bar> \<le> sample_step * 0.5"
  proof (rule circ_diff_far [OF s])
    show "sample_step \<le> real (Suc n) * sample_step" using pos by (simp add: algebra_simps)
    show "real (Suc n) * sample_step < 360 - sample_step" using Suc.prems(1,2) by (simp add: algebra_simps)
  qed
  have g: "\<not> guard_cap < g + 1" "(g + 1) + Suc n \<le> guard_cap" using Suc.prems(3) by simp_all
  from Suc.IH [OF a0 a1 g(2)]
  obtain best' where ih: "dense_loop Fv (a' + real (Suc n) * sample_step)
      (try_signs Fv a sign_factor_opts best) a' (g + 1) =
     (try_signs Fv (a' + real n * sample_step) sign_factor_opts best',
      a' + real (Suc n) * sample_step, g + 1 + Suc n)" by blast
  have "dense_loop Fv (a' + real (Suc n) * sample_step) best a g =
      dense_loop Fv (a' + real (Suc n) * sample_step) (try_signs Fv a sign_factor_opts best) a' (g + 1)"
    using far g(1) by (subst dense_loop.simps) (simp only: a Let_def if_False simp_thms)
  then have "dense_loop Fv (a + real (Suc (Suc n)) * sample_step) best a g =
     (try_signs Fv (a + real (Suc n) * sample_step) sign_factor_opts best',
      a + real (Suc (Suc n)) * sample_step, g + Suc (Suc n))"
    unfolding e using ih by (simp add: a'_def algebra_simps)
  then show ?case by blast
qed

lemma rising_hour_angle_defined:
  "- 1 \<le> tan_py (radians phi_deg) * tan_py (radians delta_deg) \<Longrightarrow>
   tan_py (radians phi_deg) * tan_py (radians delta_deg) \<le> 1 \<Longrightarrow>
   \<exists>h0. rising_hour_angle delta_deg phi_deg = Some h0"
  by (simp add: rising_hour_angle_def Let_def)

lemma F_val_defined:
  assumes "- 1 \<le> tan_py (radians latitude) * tan_py (arcsin (sin (radians eps_deg) * sin (radians lam_deg)))"
    and "tan_py (radians latitude) * tan_py (arcsin (sin (radians eps_deg) * sin (radians lam_deg))) \<le> 1"
  shows "\<exists>v. F_val eps_deg latitude base n_frac use_descension lam_deg sign_factor = Some v"
proof -
  obtain alpha delta where ad: "ra_dec_from_lambda lam_deg eps_deg = (alpha, delta)"
    by (cases "ra_dec_from_lambda lam_deg eps_deg")
  then have "delta = degrees (arcsin (sin (radians eps_deg) * sin (radians lam_deg)))"
    using declination_of [of lam_deg eps_deg] by simp
  then obtain h0 where "rising_hour_angle delta latitude = Some h0"
    using assms rising_hour_angle_defined [of latitude delta] by (auto simp: radians_degrees)
  then show ?thesis by (simp add: F_val_def ad Let_def)
qed

lemma polar_last_sample:
  "\<exists>v. F_val (10547681 / 450000) (899 / 10) base n_frac use_descension (3599 / 20) sign_factor = Some v"
proof (rule F_val_defined)
  define sd where "sd = sin (radians (10547681 / 450000)) * sin (radians (3599 / 20))"
  define y where "y = pi / 3600"
  have y: "0 < y" "y \<le> 1 / 900" "y < pi" using pi_gt_zero pi_less_4 by (simp_all add: y_def)
  have "radians (3599 / 20) = pi - y" by (simp add: radians_def y_def)
  then have sl: "sin (radians (3599 / 20)) = sin y" by simp
  have sy: "0 < sin y" "sin y \<le> 1 / 900"
    using y sin_x_le_x [of y] by (simp_all add: sin_gt_zero)
  have se: "0 < sin (radians (10547681 / 450000))" "sin (radians (10547681 / 450000)) \<le> 1"
    using sin_obliquity(1) by simp_all
  have sd0: "0 \<le> sd" unfolding sd_def sl using sy(1) se(1) by simp
  have "sd \<le> 1 * (1 / 900)" unfolding sd_def sl using sy se by (intro mult_mono) simp_all
  then have sd1: "sd \<le> 1 / 900" by simp
  have a0: "0 \<le> arcsin sd" using sd0 sd1 by (intro arcsin_nonneg) simp
  have a1: "arcsin sd < pi / 2" using sd0 sd1 arcsin_lt_bounded [of sd] by simp
  have c0: "0 < cos (arcsin sd)" using a0 a1 by (intro cos_gt_zero_pi) simp_all
  have "cos (arcsin sd) ^ 2 = 1 - sd ^ 2" using sd0 sd1 by (simp add: cos_squared_eq)
  moreover have "sd ^ 2 \<le> (1 / 900) ^ 2" using sd0 sd1 by (intro power_mono) simp_all
  ultimately have "(9 / 10) ^ 2 \<le> cos (arcsin sd) ^ 2" by (simp add: power_divide)
  then have c: "9 / 10 \<le> cos (arcsin sd)" using c0 by (simp add: power2_le_iff_abs_le)
  have "tan (arcsin sd) = sd / cos (arcsin sd)" using sd0 sd1 by (simp add: tan_def)
  also have "\<dots> \<le> sd / (9 / 10)" using c sd0 by (intro divide_left_mono) simp_all
  finally have t1: "tan (arcsin sd) \<le> 1 / 810" using sd1 by simp
  have t0: "0 \<le> tan (arcsin sd)" using a0 a1 by (rule tan_pos_pi2_le)
  have p0: "0 \<le> tan (radians (899 / 10))" using tan_polar(1) by linarith
  have "tan (radians (899 / 10)) * tan (arcsin sd) \<le> 601 * (1 / 810)"
    using tan_polar(2) t1 t0 p0 by (intro mult_mono) simp_all
  have tp: "tan_py (arcsin sd) = tan (arcsin sd)" using sd0 sd1 by (intro tan_py_arcsin) simp_all
  have le: "tan (radians (899 / 10)) * tan (arcsin sd) \<le> 1"
    using \<open>tan (radians (899 / 10)) * tan (arcsin sd) \<le> 601 * (1 / 810)\<close> by linarith
  then show "tan_py (radians (899 / 10)) * tan_py (arcsin (sin (radians (10547681 / 450000)) * sin (radians (3599 / 20)))) \<le> 1"
    using tp unfolding sd_def tan_py_polar by simp
  have "0 \<le> tan (radians (899 / 10)) * tan (arcsin sd)" using t0 p0 by simp
  then have "- 1 \<le> tan (radians (899 / 10)) * tan (arcsin sd)" by linarith
  then show "- 1 \<le> tan_py (radians (899 / 10)) * tan_py (arcsin (sin (radians (10547681 / 450000)) * sin (radians (3599 / 20))))"
    using tp unfolding sd_def tan_py_polar by simp
qed

lemma solve_with_fallback_polar:
  "\<exists>v. solve_with_fallback (10547681 / 450000) (899 / 10) n_frac base_ramc 90 180 use_descension = Some v"
proof -
  define Fv where "Fv = F_val (10547681 / 450000) (899 / 10) (normalize_deg base_ramc) n_frac use_descension"
  have n: "normalize_deg 180 = 180" "normalize_deg 90 = 90"
    by (simp_all add: normalize_deg_fmod fmod_py_def)
  have "\<exists>best'. dense_loop Fv (90 + real (Suc 1799) * sample_step) None 90 0 =
     (try_signs Fv (90 + real 1799 * sample_step) sign_factor_opts best',
      90 + real (Suc 1799) * sample_step, 0 + Suc 1799)"
    by (rule dense_loop_reach) (simp_all add: sample_step_def guard_cap_value)
  then obtain best' where d: "dense_loop Fv 180 None 90 0 =
     (try_signs Fv (3599 / 20) sign_factor_opts best', 180, 1800)"
    by (auto simp: sample_step_def)
  obtain v where "Fv (3599 / 20) 1 = Some v" unfolding Fv_def using polar_last_sample by blast
  then have "try_signs Fv (3599 / 20) sign_factor_opts best' \<noteq> None"
    unfolding sign_factor_opts_def by (rule try_signs_finds)
  then obtain af lam0 s0 where b: "try_signs Fv (3599 / 20) sign_factor_opts best' = Some (af, lam0, s0)"
    by (cases "try_signs Fv (3599 / 20) sign_factor_opts best'") auto
  show ?thesis
    unfolding solve_with_fallback_def Let_def n Fv_def [symmetric] d
    by (simp add: b split: option.splits)
qed

subsection \<open>Termination of the root-finder\<close>

lemma bisect_iterations_le: "bisect_iterations Fn n lo hi flo fhi \<le> n"
  by (induction n arbitrary: lo hi flo fhi) (auto simp: Let_def split: option.splits)

lemma secant_iterations_le: "secant_iterations Fs ws we n lam0 f0 lam1 f1 \<le> n"
  by (induction n arbitrary: lam0 f0 lam1 f1) (auto simp: Let_def split: option.splits)

lemma dense_loop_guard:
  "snd (snd (dense_loop Fv end_n best angle guard)) \<le> max (guard + 1) (guard_cap + 1)"
proof (induction Fv end_n best angle guard rule: dense_loop.induct)
  case (1 Fv end_n best angle guard)
  show ?case
  proof (cases "\<bar>circ_diff (normalize_deg (angle + sample_step)) end_n\<bar> \<le> sample_step * 0.5
                \<or> guard_cap < guard + 1")
    case True
    then show ?thesis by (subst dense_loop.simps) (simp add: Let_def)
  next
    case False
    then have g: "guard + 1 \<le> guard_cap" by simp
    have "snd (snd (dense_loop Fv end_n (try_signs Fv angle sign_factor_opts best)
              (normalize_deg (angle + sample_step)) (guard + 1)))
          \<le> max (guard + 1 + 1) (guard_cap + 1)"
      using False by (intro "1.IH") simp_all
    then show ?thesis using False g by (subst dense_loop.simps) (simp add: Let_def)
  qed
qed

text \<open>
  C9. The Placidus root-finder terminates. For a step that divides the circle into
  \<open>m\<close> parts (the program passes 0.5 and 0.1, that is \<open>m = 720\<close> and \<open>m = 3600\<close>),
  the generator \<open>iter_window\<close> stops after at most \<open>m + 1\<close> angles, the last one
  within half a step of the window end, so \<open>solve_lambda_by_OA\<close> returns; the bisection
  body runs at most 30 times; the sampling loop leaves with its guard counter at most
  \<open>guard_cap + 1 = 7206\<close>; the secant body runs at most 20 times; and the four solver
  calls of the Placidus branch all return.
\<close>

theorem root_finder_is_bounded:
  assumes "0 < m" "init_step_deg = 360 / real m"
  shows "(\<exists>lams. iter_window win_start win_end init_step_deg = Some lams \<and> length lams \<le> m + 1 \<and>
            \<bar>circ_diff (last lams) (normalize_deg win_end)\<bar> \<le> init_step_deg * 0.5)
       \<and> (\<exists>r. solve_lambda_by_OA obliquity_degrees latitude n_frac base_ramc sign_factor
                win_start win_end init_step_deg use_descension = Some r)
       \<and> bisect_iterations Fn 30 lo hi flo fhi \<le> 30
       \<and> snd (snd (dense_loop Fv end_n best angle 0)) \<le> guard_cap + 1 \<and> guard_cap = 7205
       \<and> secant_iterations Fs ws we 20 lam0 f0 lam1 f1 \<le> 20
       \<and> (\<exists>cs. placidus_solve obliquity_degrees latitude ramc_degrees asc_longitude mc_longitude = Some cs)"
proof -
  have "\<exists>lams. iter_window win_start win_end init_step_deg = Some lams \<and> length lams \<le> m + 1 \<and>
            \<bar>circ_diff (last lams) (normalize_deg win_end)\<bar> \<le> init_step_deg * 0.5"
    using iter_window_returns [OF assms(1), of win_start win_end] unfolding assms(2) by blast
  moreover have "\<exists>r. solve_lambda_by_OA obliquity_degrees latitude n_frac base_ramc sign_factor
                win_start win_end init_step_deg use_descension = Some r"
    unfolding assms(2) using assms(1) by (rule solve_lambda_by_OA_returns)
  moreover have "snd (snd (dense_loop Fv end_n best angle 0)) \<le> guard_cap + 1"
    using dense_loop_guard [of Fv end_n best angle 0] by simp
  ultimately show ?thesis
    using bisect_iterations_le [of Fn 30] secant_iterations_le [of Fs ws we 20]
      guard_cap_value placidus_solve_returns
    by blast
qed

theorem root_finder_is_bounded_witness:
  "(0::nat) < 720 \<and> (0.5::real) = 360 / real (720::nat)
   \<and> (\<exists>lams. iter_window 90 180 0.5 = Some lams \<and> length lams \<le> 720 + 1 \<and>
            \<bar>circ_diff (last lams) (normalize_deg 180)\<bar> \<le> 0.5 * 0.5)
   \<and> (\<exists>r. solve_lambda_by_OA (10547681 / 450000) 0 (2 / 3) 90 1 90 180 0.5 False = Some r)
   \<and> bisect_iterations (F (10547681 / 450000) 0 90 (2 / 3) 1 False) 30 100 101 1 (- 1) \<le> 30
   \<and> snd (snd (dense_loop (F_val (10547681 / 450000) 0 270 (2 / 3) True) 270 None 180 0)) \<le> guard_cap + 1
   \<and> guard_cap = 7205
   \<and> secant_iterations (\<lambda>l. F_val (10547681 / 450000) 0 270 (2 / 3) True l 1) 180 270 20 200 1 201 2 \<le> 20
   \<and> (\<exists>cs. placidus_solve (10547681 / 450000) 0 90 180 90 = Some cs)"
proof -
  have a: "(0::nat) < 720" "(0.5::real) = 360 / real (720::nat)" by simp_all
  show ?thesis
    using root_finder_is_bounded [OF a, of 90 180 "10547681 / 450000" 0 "2 / 3" 90 1 False
        "F (10547681 / 450000) 0 90 (2 / 3) 1 False" 100 101 1 "- 1"
        "F_val (10547681 / 450000) 0 270 (2 / 3) True" 270 None 180
        "\<lambda>l. F_val (10547681 / 450000) 0 270 (2 / 3) True l 1" 180 270 200 1 201 2 90 180 90] a
    by blast
qed

subsection \<open>Missing cusps\<close>

lemma polar_cusps:
  "cusp (mk_result 180 90 (placidus_houses 180 90 (None, None, c3, c2))) 11 = 120"
  "cusp (mk_result 180 90 (placidus_houses 180 90 (None, None, c3, c2))) 12 = 150"
  by (simp_all add: placidus_cusp number_to_long_solved fmod_py_def)

text \<open>
  C5. The claim: for each of the four solved cusps (11, 12, 3 and 2), when the window scan
  finds no sign change, the dense-sampling fallback is tried before the cusp is declared
  missing. \<open>placidus_solve\<close> does so for cusps 3 and 2 only; cusps 11 and 12 are the
  result of \<open>solve_lambda_by_OA\<close> as it is. At latitude 89.9, longitude 0, with
  \<open>t.gast = 6\<close> hours (RAMC 90, so MC = 90 and ASC = 180) and \<open>t.tt = 2451545\<close>, every
  sample of the window from 90 to 180 but the last is circumpolar and the scan for cusp 11
  returns \<open>None\<close>; \<open>solve_with_fallback\<close> on the same window would return a value (the
  equation is defined at its sample 179.95); houses 11 and 12 of the result nevertheless
  carry the Equal-house values 120 and 150.
\<close>

theorem cusp_11_missing_without_fallback:
  "obliquity_of \<lparr>gast = 6, tt = 2451545\<rparr> = 10547681 / 450000
   \<and> ramc_of \<lparr>gast = 6, tt = 2451545\<rparr> 0 = 90
   \<and> solve_lambda_by_OA (10547681 / 450000) (899 / 10) (2 / 3) 90 1 90 180 0.5 False = Some None
   \<and> (\<exists>v. solve_with_fallback (10547681 / 450000) (899 / 10) (2 / 3) 90 90 180 False = Some v)
   \<and> (\<exists>r. calculate_houses \<lparr>gast = 6, tt = 2451545\<rparr> (899 / 10) 0 ''placidus'' = Some (Inr r)
          \<and> plongitude (ascendant r) = 180 \<and> plongitude (mc r) = 90
          \<and> cusp r 11 = 120 \<and> cusp r 12 = 150)"
proof -
  obtain c3 c2 where
    "calculate_houses \<lparr>gast = 6, tt = 2451545\<rparr> (899 / 10) 0 ''placidus'' =
       Some (Inr (mk_result 180 90 (placidus_houses 180 90 (None, None, c3, c2))))"
    using calculate_houses_polar by blast
  then have "\<exists>r. calculate_houses \<lparr>gast = 6, tt = 2451545\<rparr> (899 / 10) 0 ''placidus'' = Some (Inr r)
          \<and> plongitude (ascendant r) = 180 \<and> plongitude (mc r) = 90
          \<and> cusp r 11 = 120 \<and> cusp r 12 = 150"
    using polar_cusps [of c3 c2] by (simp add: mk_result_sel)
  then show ?thesis
    using solve_lambda_by_OA_polar [of "2 / 3" 90 1 False]
      solve_with_fallback_polar [of "2 / 3" 90 False] obliquity_J2000 [of 6] ramc_ref [of 2451545]
    by blast
qed

text \<open>
  C4. In the Placidus branch, whenever \<open>calculate_houses\<close> returns and the cusp
  dictionary holds no value for house \<open>i\<close> (the solver returned \<open>None\<close> for cusp 11, 12,
  3 or 2, or the cusp is the mirror image 5, 6, 9 or 8 of such a cusp), the longitude of
  house \<open>i\<close> in the result is \<open>(ASC + (i - 1) * 30) mod 360\<close>, with \<open>ASC\<close> the ascendant
  of the result. The result always has twelve houses, each with a number and a real
  longitude: no entry is left without a value.
\<close>

theorem missing_cusp_takes_equal_value:
  assumes "system \<noteq> ''equal''" "system \<noteq> ''koch''"
    and "calculate_houses t latitude longitude system = Some (Inr r)"
    and "placidus_solve (obliquity_of t) latitude (ramc_of t longitude)
           (asc_longitude_of (ramc_of t longitude) (obliquity_of t) latitude)
           (mc_longitude_of (ramc_of t longitude) (obliquity_of t)) = Some cs"
    and "1 \<le> i" "i \<le> 12"
    and "cv_get (cv_map (asc_longitude_of (ramc_of t longitude) (obliquity_of t) latitude)
           (mc_longitude_of (ramc_of t longitude) (obliquity_of t)) cs) i = None"
  shows "cusp r i = fmod_py (plongitude (ascendant r) + real (i - 1) * 30) 360
         \<and> number (houses r ! (i - 1)) = i \<and> length (houses r) = 12"
proof -
  define a where "a = asc_longitude_of (ramc_of t longitude) (obliquity_of t) latitude"
  define m where "m = mc_longitude_of (ramc_of t longitude) (obliquity_of t)"
  have "asc_denominator (ramc_of t longitude) (obliquity_of t) latitude \<noteq> 0"
    using assms(3) by (rule calculate_houses_Inr_nonzero)
  from calculate_houses_placidus [OF assms(1,2) this assms(4)] assms(3)
  have r: "r = mk_result a m (placidus_houses a m cs)" by (simp add: a_def m_def)
  have "cusp r i = number_to_long a m cs i" unfolding r using assms(5,6) by (rule placidus_cusp)
  also have "\<dots> = fmod_py (a + real (i - 1) * 30) 360"
    using assms(5,6,7) unfolding a_def m_def by (rule number_to_long_missing)
  finally have "cusp r i = fmod_py (plongitude (ascendant r) + real (i - 1) * 30) 360"
    by (simp add: r mk_result_sel)
  moreover have "number (houses r ! (i - 1)) = i"
    by (simp only: r mk_result_sel placidus_houses_nth [OF assms(5,6)] mk_house_sel)
  moreover have "length (houses r) = 12" by (simp add: r mk_result_sel placidus_houses_length)
  ultimately show ?thesis by blast
qed

theorem missing_cusp_takes_equal_value_witness:
  "\<exists>cs r. ''placidus'' \<noteq> ''equal'' \<and> ''placidus'' \<noteq> ''koch''
     \<and> calculate_houses \<lparr>gast = 6, tt = 2451545\<rparr> (899 / 10) 0 ''placidus'' = Some (Inr r)
     \<and> placidus_solve (obliquity_of \<lparr>gast = 6, tt = 2451545\<rparr>) (899 / 10)
           (ramc_of \<lparr>gast = 6, tt = 2451545\<rparr> 0)
           (asc_longitude_of (ramc_of \<lparr>gast = 6, tt = 2451545\<rparr> 0) (obliquity_of \<lparr>gast = 6, tt = 2451545\<rparr>) (899 / 10))
           (mc_longitude_of (ramc_of \<lparr>gast = 6, tt = 2451545\<rparr> 0) (obliquity_of \<lparr>gast = 6, tt = 2451545\<rparr>)) = Some cs
     \<and> (1::nat) \<le> 11 \<and> (11::nat) \<le> 12
     \<and> cv_get (cv_map (asc_longitude_of (ramc_of \<lparr>gast = 6, tt = 2451545\<rparr> 0) (obliquity_of \<lparr>gast = 6, tt = 2451545\<rparr>) (899 / 10))
           (mc_longitude_of (ramc_of \<lparr>gast = 6, tt = 2451545\<rparr> 0) (obliquity_of \<lparr>gast = 6, tt = 2451545\<rparr>)) cs) 11 = None
     \<and> cusp r 11 = 120 \<and> plongitude (ascendant r) = 180 \<and> length (houses r) = 12"
proof -
  let ?t = "\<lparr>gast = 6, tt = 2451545\<rparr>"
  have a: "asc_longitude_of 90 (10547681 / 450000) (899 / 10) = 180"
    using asc_denominator_polar by (rule asc_longitude_ref)
  have m: "mc_longitude_of 90 (10547681 / 450000) = 90"
    by (rule mc_longitude_ref)
  obtain c3 c2 where
    p: "placidus_solve (10547681 / 450000) (899 / 10) 90 180 90 = Some (None, None, c3, c2)" and
    c: "calculate_houses ?t (899 / 10) 0 ''placidus'' =
       Some (Inr (mk_result 180 90 (placidus_houses 180 90 (None, None, c3, c2))))"
    using calculate_houses_polar by blast
  have s: "''placidus'' \<noteq> ''equal''" "''placidus'' \<noteq> ''koch''" by simp_all
  have p': "placidus_solve (obliquity_of ?t) (899 / 10) (ramc_of ?t 0)
           (asc_longitude_of (ramc_of ?t 0) (obliquity_of ?t) (899 / 10))
           (mc_longitude_of (ramc_of ?t 0) (obliquity_of ?t)) = Some (None, None, c3, c2)"
    using p by (simp only: ramc_ref obliquity_J2000 a m)
  have i: "(1::nat) \<le> 11" "(11::nat) \<le> 12" by simp_all
  have g: "cv_get (cv_map (asc_longitude_of (ramc_of ?t 0) (obliquity_of ?t) (899 / 10))
           (mc_longitude_of (ramc_of ?t 0) (obliquity_of ?t)) (None, None, c3, c2)) 11 = None"
    by (simp only: cv_get_solved)
  from missing_cusp_takes_equal_value [OF s c p' i g]
  have "length (houses (mk_result 180 90 (placidus_houses 180 90 (None, None, c3, c2)))) = 12" by blast
  then show ?thesis
    using s c p' i g polar_cusps(1) [of c3 c2] mk_result_sel(2) [of 180 90] by blast
qed

subsection \<open>What \<open>calculate_houses\<close> returns\<close>


text \<open>
  C2. The claim: for every input and each of the three systems \<open>calculate_houses\<close>
  returns, without raising, twelve houses numbered 1 to 12 with longitudes in
  \<open>[0, 360)\<close>. Whenever the ASC denominator is not zero it returns twelve houses
  numbered 1 to 12 (\<open>calculate_houses_returns\<close>). When it is zero the function raises: the quotient
  \<open>asc_numerator / asc_denominator\<close>, computed for a log line only, is a float division
  by zero. This happens on the equator (latitude 0) at RAMC 0 (\<open>t.gast = 0\<close>,
  longitude 0), for all three systems.
\<close>

theorem calculate_houses_zero_division:
  "asc_denominator (ramc_of \<lparr>gast = 0, tt = 2451545\<rparr> 0) (obliquity_of \<lparr>gast = 0, tt = 2451545\<rparr>) 0 = 0
   \<and> calculate_houses \<lparr>gast = 0, tt = 2451545\<rparr> 0 0 ''equal'' = Some (Inl ZeroDivisionError)
   \<and> calculate_houses \<lparr>gast = 0, tt = 2451545\<rparr> 0 0 ''koch'' = Some (Inl ZeroDivisionError)
   \<and> calculate_houses \<lparr>gast = 0, tt = 2451545\<rparr> 0 0 ''placidus'' = Some (Inl ZeroDivisionError)"
proof -
  have "asc_denominator (ramc_of \<lparr>gast = 0, tt = 2451545\<rparr> 0) (obliquity_of \<lparr>gast = 0, tt = 2451545\<rparr>) 0 = 0"
    by (simp only: ramc_zero asc_denominator_eq_0)
  then show ?thesis using calculate_houses_raises by blast
qed

subsection \<open>Latitude\<close>




subsection \<open>The circular difference\<close>

text \<open>
  C8. The claim: \<open>circ_diff a b\<close> lies in the half-open interval \<open>(-180, 180]\<close>, and
  is \<open>+180\<close> when \<open>a - b\<close> is congruent to 180 modulo 360. The docstring of
  \<open>circ_diff\<close> says the same. The code computes \<open>(a - b + 180) % 360 - 180\<close>, which
  lies in \<open>[-180, 180)\<close>: at \<open>a = 180\<close>, \<open>b = 0\<close> it returns \<open>-180\<close>, outside the
  claimed interval.
\<close>

theorem circ_diff_half_turn:
  "circ_diff 180 0 = - 180 \<and> \<not> (- 180 < circ_diff 180 0 \<and> circ_diff 180 0 \<le> 180)"
  by (simp add: circ_diff_def fmod_py_def)

end
